theory Spec2Isabelle
  imports Main
begin

section \<open>genvfs.py: the generator of the WASI VFS headers\<close>

text \<open>
  A shallow embedding of \<^verbatim>\<open>src/libwasi/genvfs.py\<close>. A Python \<^verbatim>\<open>str\<close> is a
  \<^typ>\<open>string\<close>; a \<^typ>\<open>char\<close> stands for the code point of the same number (0..255),
  which covers the ASCII grammar of the definition file. An uncaught Python exception is
  a value of \<open>py_error\<close>. Text printed to a file object is returned by the function that
  prints it: a sink is only ever appended to, so what a call leaves in the sink is the
  sink's old content followed by the text the call returns.
\<close>

subsection \<open>Python's string primitives\<close>

text \<open>\<^verbatim>\<open>str.isspace\<close> on one character, for the code points below 256.\<close>

definition isspace :: "char \<Rightarrow> bool" where
  "isspace c = (c \<in> set [CHR 0x09, CHR 0x0A, CHR 0x0B, CHR 0x0C, CHR 0x0D,
     CHR 0x1C, CHR 0x1D, CHR 0x1E, CHR 0x1F, CHR 0x20, CHR 0x85, CHR 0xA0])"

text \<open>\<^verbatim>\<open>s.strip()\<close>: leading and trailing whitespace removed.\<close>

definition strip :: "string \<Rightarrow> string" where
  "strip s = rev (dropWhile isspace (rev (dropWhile isspace s)))"

text \<open>
  \<^verbatim>\<open>s.split(c)\<close> for a one-character separator: the pieces between the occurrences
  of \<open>c\<close>, never an empty list (\<^verbatim>\<open>"".split(";") == [""]\<close>). The split of the
  rest always has a first piece (lemma \<open>split_on_not_Nil\<close>), so the last case is
  never taken.
\<close>

fun split_on :: "char \<Rightarrow> string \<Rightarrow> string list" where
  "split_on c [] = [[]]"
| "split_on c (x # xs) =
     (case split_on c xs of
        p # ps \<Rightarrow> if x = c then [] # p # ps else (x # p) # ps
      | [] \<Rightarrow> [])"

text \<open>\<^verbatim>\<open>sep.join(xs)\<close>.\<close>

fun join :: "string \<Rightarrow> string list \<Rightarrow> string" where
  "join sep [] = []"
| "join sep [x] = x"
| "join sep (x # y # ys) = x @ sep @ join sep (y # ys)"

text \<open>\<^verbatim>\<open>s.startswith(p)\<close>.\<close>

definition startswith :: "string \<Rightarrow> string \<Rightarrow> bool" where
  "startswith s p = (take (length p) s = p)"

text \<open>\<^verbatim>\<open>print(s, file=out)\<close>: the text it appends to \<open>out\<close>.\<close>

definition print :: "string \<Rightarrow> string" where
  "print s = s @ ''\<newline>''"

subsection \<open>The two regular expressions (lines 5 to 9)\<close>

text \<open>
  The character classes \<^verbatim>\<open>[a-z]\<close> and \<^verbatim>\<open>[_a-z0-9]\<close>.
\<close>

definition is_lower :: "char \<Rightarrow> bool" where
  "is_lower c = (c \<in> set ''abcdefghijklmnopqrstuvwxyz'')"

definition is_name_char :: "char \<Rightarrow> bool" where
  "is_name_char c = (c \<in> set ''_abcdefghijklmnopqrstuvwxyz0123456789'')"

text \<open>
  \<^verbatim>\<open>[a-z][_a-z0-9]*$\<close> matched at the start of \<open>s\<close>: the text matched, if the
  pattern matches there. The star takes the longest run of name characters, and
  \<^verbatim>\<open>$\<close> matches at the end of the string or before a line feed that ends the string;
  giving characters of the run back cannot help, for \<^verbatim>\<open>$\<close> does not match before a
  name character.
\<close>

definition name_at_start :: "string \<Rightarrow> string option" where
  "name_at_start s =
     (case s of
        [] \<Rightarrow> None
      | c # t \<Rightarrow>
          (let rest = dropWhile is_name_char t in
           if is_lower c \<and> (rest = [] \<or> rest = ''\<newline>'')
           then Some (c # takeWhile is_name_char t) else None))"

text \<open>
  \<^verbatim>\<open>re_name.search(s)\<close>: the match at the leftmost position where there is one;
  the result is \<^verbatim>\<open>m.group()\<close>, or \<open>None\<close> as in Python.
\<close>

fun re_name_search :: "string \<Rightarrow> string option" where
  "re_name_search [] = None"
| "re_name_search (c # t) =
     (case name_at_start (c # t) of
        Some g \<Rightarrow> Some g
      | None \<Rightarrow> re_name_search t)"

text \<open>
  \<^verbatim>\<open>re_path_info.search(s)\<close> for \<^verbatim>\<open>struct path_info \*([a-z][_a-z0-9]*$)\<close>;
  the result is \<^verbatim>\<open>m.group(1)\<close>, the name after the eighteen fixed characters.
\<close>

definition path_info_match :: "string \<Rightarrow> string option" where
  "path_info_match s =
     (if startswith s ''struct path_info *'' then name_at_start (drop 18 s) else None)"

fun re_path_info_search :: "string \<Rightarrow> string option" where
  "re_path_info_search [] = path_info_match []"
| "re_path_info_search (c # t) =
     (case path_info_match (c # t) of
        Some g \<Rightarrow> Some g
      | None \<Rightarrow> re_path_info_search t)"

subsection \<open>Errors and modes\<close>

text \<open>
  The exceptions the script can raise and never catches.
  \<^item> \<open>FileNotFoundError\<close>: line 19, the definition file is missing.
  \<^item> \<open>UnicodeDecodeError\<close>: line 20, the bytes of the definition file are not text in
    the encoding of the locale.
  \<^item> \<open>ValueError n\<close>: the unpacking of a split into two names (lines 35 and 36) got
    \<open>n\<close> values instead of two; Python's message tells at most that count, never
    the text.
  \<^item> \<open>AttributeError\<close>: \<^verbatim>\<open>m.group()\<close> with \<^verbatim>\<open>m\<close> being \<^verbatim>\<open>None\<close> (line 45);
    the message is the fixed text \<^verbatim>\<open>'NoneType' object has no attribute 'group'\<close>.
  \<^item> \<open>IndexError\<close>: \<^verbatim>\<open>path_info_arg[0]\<close> on an empty list (line 66); the message is
    the fixed text \<^verbatim>\<open>list index out of range\<close>.
\<close>

datatype py_error =
  FileNotFoundError | UnicodeDecodeError | ValueError nat | AttributeError | IndexError

datatype Mode = VfsPrototype | VfsStructDecl | VfsStructDefine | VfsDefine

subsection \<open>The loop body: one statement (lines 35 to 70)\<close>

text \<open>What lines 35 to 50 compute from one statement.\<close>

record stmt =
  fn :: string
  args_sig :: "string list"
  args_name :: "string list"
  path_info_arg :: "string list"

text \<open>
  Lines 41 to 45: the name of every argument; the first argument with no match ends the
  loop with the \<open>AttributeError\<close>.
\<close>

fun collect_names :: "string list \<Rightarrow> py_error + string list" where
  "collect_names [] = Inr []"
| "collect_names (a # as) =
     (case re_name_search (strip a) of
        None \<Rightarrow> Inl AttributeError
      | Some m \<Rightarrow>
          (case collect_names as of
             Inl e \<Rightarrow> Inl e
           | Inr ms \<Rightarrow> Inr (m # ms)))"

text \<open>
  Lines 46 to 50: the path-info arguments, in order. The pattern is searched in the
  argument as split, not stripped.
\<close>

definition collect_path_info :: "string list \<Rightarrow> string list" where
  "collect_path_info as = List.map_filter re_path_info_search as"

text \<open>
  Lines 35 to 50 on a stripped, non-empty line. Each of the two unpackings needs
  exactly two pieces.
\<close>

definition parse_stmt :: "string \<Rightarrow> py_error + stmt" where
  "parse_stmt line =
     (case split_on CHR '')'' line of
        [line', _] \<Rightarrow>
          (case split_on CHR ''('' line' of
             [f, args] \<Rightarrow>
               (let as = split_on CHR '','' args in
                case collect_names as of
                  Inl e \<Rightarrow> Inl e
                | Inr names \<Rightarrow>
                    Inr \<lparr>fn = f, args_sig = map strip as, args_name = names,
                         path_info_arg = collect_path_info as\<rparr>)
           | ps \<Rightarrow> Inl (ValueError (length ps)))
      | ps \<Rightarrow> Inl (ValueError (length ps)))"

text \<open>Lines 62 to 65: one guard for each later path-info argument.\<close>

fun xdev_guards :: "string \<Rightarrow> string list \<Rightarrow> string" where
  "xdev_guards r [] = []"
| "xdev_guards r (a # as) =
     print (CHR 0x09 # ''if (check_xdev('' @ r @ '', '' @ a @ '')) {'')
     @ print ([CHR 0x09, CHR 0x09] @ ''return EXDEV;'')
     @ print (CHR 0x09 # ''}'')
     @ xdev_guards r as"

text \<open>
  Lines 58 to 70. The slice \<^verbatim>\<open>path_info_arg[1:]\<close> of an empty list is empty, so with
  no path-info argument the loop of line 62 does nothing and line 66 raises, after the
  first two prints.
\<close>

definition emit_define :: "stmt \<Rightarrow> string \<times> py_error option" where
  "emit_define s =
     (let head = print (''int\<newline>wasi_vfs_'' @ fn s @ ''('' @ join '', '' (args_sig s) @ '')'')
                 @ print ''{'';
          tail = print (CHR 0x09 # ''return ops->'' @ fn s @ ''('' @ join '', '' (args_name s) @ '');'')
                 @ print ''}''
      in if startswith (fn s) ''path_'' then
           (case path_info_arg s of
              [] \<Rightarrow> (head, Some IndexError)
            | r # cands \<Rightarrow>
                (head @ xdev_guards r cands
                 @ print (CHR 0x09 # ''const struct wasi_vfs_ops *ops = path_vfs_ops('' @ r @ '');'')
                 @ tail, None))
         else
           (head
            @ print (CHR 0x09 # ''const struct wasi_vfs_ops *ops = fdinfo_vfs_ops(fdinfo);'')
            @ tail, None))"

text \<open>Lines 52 to 70: what one statement prints in each mode.\<close>

fun emit :: "Mode \<Rightarrow> string \<Rightarrow> stmt \<Rightarrow> string \<times> py_error option" where
  "emit VfsStructDecl prefix s =
     (print (CHR 0x09 # ''int (*'' @ fn s @ '')('' @ join '', '' (args_sig s) @ '');''), None)"
| "emit VfsStructDefine prefix s =
     (print (CHR 0x09 # ''.'' @ fn s @ '' = '' @ prefix @ fn s @ '',''), None)"
| "emit VfsPrototype prefix s =
     (print (''int '' @ prefix @ fn s @ ''('' @ join '', '' (args_sig s) @ '');''), None)"
| "emit VfsDefine prefix s = emit_define s"

subsection \<open>process (lines 24 to 74)\<close>

text \<open>
  The loop of line 31 over the pieces of the content: the text printed, and the
  exception that ended the loop, if any. A statement is parsed whole before anything of
  it is printed.
\<close>

fun process_loop :: "Mode \<Rightarrow> string \<Rightarrow> string list \<Rightarrow> string \<times> py_error option" where
  "process_loop mode prefix [] = ([], None)"
| "process_loop mode prefix (l # ls) =
     (let line = strip l in
      if line = [] then process_loop mode prefix ls
      else
        (case parse_stmt line of
           Inl e \<Rightarrow> ([], Some e)
         | Inr s \<Rightarrow>
             (case emit mode prefix s of
                (t, Some e) \<Rightarrow> (t, Some e)
              | (t, None) \<Rightarrow>
                  (case process_loop mode prefix ls of
                     (t', r) \<Rightarrow> (t @ t', r)))))"

text \<open>
  Lines 32 to 34: the statements the loop handles, the stripped pieces that are not
  empty.
\<close>

definition statements :: "string list \<Rightarrow> string list" where
  "statements lines = filter (\<lambda>l. l \<noteq> []) (map strip lines)"

definition header :: string where
  "header = print ''/* this file is generated by genvfs.sh */''
            @ print (''#include '' @ [CHR 0x22] @ ''wasi_vfs_types.h'' @ [CHR 0x22])"

definition process :: "string list \<Rightarrow> Mode \<Rightarrow> string \<Rightarrow> string \<Rightarrow> string \<times> py_error option" where
  "process lines mode prefix qual =
     (let opening =
            header
            @ (if mode = VfsStructDecl then print ''struct wasi_vfs_ops {'' else [])
            @ (if mode = VfsStructDefine
               then print (qual @ '' struct wasi_vfs_ops '' @ prefix @ ''ops = {'') else [])
      in case process_loop mode prefix lines of
           (t, Some e) \<Rightarrow> (opening @ t, Some e)
         | (t, None) \<Rightarrow>
             (opening @ t
              @ (if mode = VfsStructDecl then print ''};'' else [])
              @ (if mode = VfsStructDefine then print ''};'' else []), None))"

subsection \<open>The script (lines 11 to 22 and 76 to 83)\<close>

text \<open>
  The files of the working directory, by name. A file is text, the characters the
  codec of the locale reads from its bytes or writes for them, or it holds bytes that
  are no text in that encoding. \<^verbatim>\<open>open(name, "w")\<close> creates the file or empties it;
  leaving the \<^verbatim>\<open>with\<close> block, also by an exception, closes it with what was printed
  so far.
\<close>

datatype file_data = Text string | Undecodable

type_synonym files = "string \<rightharpoonup> file_data"

definition filename :: string where
  "filename = ''wasi_vfs.def''"

definition default_prefix :: string where
  "default_prefix = ''wasi_vfs_''"

definition default_qual :: string where
  "default_qual = ''static const''"

text \<open>
  Line 19 opens the file in text mode with the default \<^verbatim>\<open>newline=None\<close>: reading
  turns every carriage return with a line feed after it, and every other carriage
  return, into one line feed.
\<close>

fun universal_newlines :: "string \<Rightarrow> string" where
  "universal_newlines [] = []"
| "universal_newlines [c] = (if c = CHR 0x0D then [CHR 0x0A] else [c])"
| "universal_newlines (c # d # t) =
     (if c = CHR 0x0D then
        (if d = CHR 0x0A then CHR 0x0A # universal_newlines t
         else CHR 0x0A # universal_newlines (d # t))
      else c # universal_newlines (d # t))"

text \<open>Lines 19 and 20: \<^verbatim>\<open>open(name, "r").read()\<close>.\<close>

definition read_text :: "files \<Rightarrow> string \<Rightarrow> py_error + string" where
  "read_text fs name =
     (case fs name of
        None \<Rightarrow> Inl FileNotFoundError
      | Some Undecodable \<Rightarrow> Inl UnicodeDecodeError
      | Some (Text raw) \<Rightarrow> Inr (universal_newlines raw))"

text \<open>Lines 21 and 22.\<close>

definition lines_of :: "string \<Rightarrow> string list" where
  "lines_of content = split_on CHR '';'' (filter (\<lambda>c. c \<noteq> CHR 0x0A) content)"

text \<open>Lines 76 to 83: one output file after the other; an exception ends the run.\<close>

definition write_all :: "string list \<Rightarrow> files \<Rightarrow> py_error option \<times> files" where
  "write_all lines fs =
     (case process lines VfsStructDecl default_prefix default_qual of
        (t1, Some e) \<Rightarrow> (Some e, fs(''wasi_vfs_ops.h'' \<mapsto> Text t1))
      | (t1, None) \<Rightarrow>
          (case process lines VfsPrototype default_prefix default_qual of
             (t2, Some e) \<Rightarrow>
               (Some e, fs(''wasi_vfs_ops.h'' \<mapsto> Text t1, ''wasi_vfs.h'' \<mapsto> Text t2))
           | (t2, None) \<Rightarrow>
               (case process lines VfsDefine default_prefix default_qual of
                  (t3, r) \<Rightarrow>
                    (r, fs(''wasi_vfs_ops.h'' \<mapsto> Text t1, ''wasi_vfs.h'' \<mapsto> Text t2,
                           ''wasi_vfs_dispatch.h'' \<mapsto> Text t3)))))"

text \<open>The whole script: lines 19 to 22, then lines 76 to 83.\<close>

definition main :: "files \<Rightarrow> py_error option \<times> files" where
  "main fs =
     (case read_text fs filename of
        Inl e \<Rightarrow> (Some e, fs)
      | Inr content \<Rightarrow> write_all (lines_of content) fs)"

subsection \<open>Vocabulary of the properties\<close>

text \<open>The parse of a statement that has one.\<close>

definition stmt_of :: "string \<Rightarrow> stmt" where
  "stmt_of l = projr (parse_stmt l)"

text \<open>
  The exception of the first statement whose parse (lines 35 to 45) raises, if there is
  such a statement.
\<close>

definition first_error :: "string list \<Rightarrow> py_error option" where
  "first_error lines =
     (case dropWhile (\<lambda>l. \<not> isl (parse_stmt l)) (statements lines) of
        [] \<Rightarrow> None
      | l # _ \<Rightarrow> Some (projl (parse_stmt l)))"

text \<open>A name: a lowercase letter, then name characters only.\<close>

definition is_name :: "string \<Rightarrow> bool" where
  "is_name n = (case n of [] \<Rightarrow> False | c # t \<Rightarrow> is_lower c \<and> list_all is_name_char t)"

text \<open>An example input: two statements, the second over two physical lines.\<close>

definition two_ops :: string where
  "two_ops = ''close(struct path_info *fdinfo);\<newline>path_link(struct path_info *old,\<newline>          struct path_info *new);\<newline>''"

text \<open>
  A statement by its text. The text before the first closing parenthesis; in it, the
  name before the first opening parenthesis and the argument block after it; the
  fragments of the argument block between its commas; the identifier line 45 takes
  from a fragment.
\<close>

definition before_paren :: "string \<Rightarrow> string" where
  "before_paren l = takeWhile (\<lambda>c. c \<noteq> CHR '')'') l"

definition name_of :: "string \<Rightarrow> string" where
  "name_of l = takeWhile (\<lambda>c. c \<noteq> CHR ''('') (before_paren l)"

definition args_of :: "string \<Rightarrow> string" where
  "args_of l = tl (dropWhile (\<lambda>c. c \<noteq> CHR ''('') (before_paren l))"

definition fragments :: "string \<Rightarrow> string list" where
  "fragments l = split_on CHR '','' (args_of l)"

definition identifier_of :: "string \<Rightarrow> string" where
  "identifier_of a = (case re_name_search (strip a) of Some m \<Rightarrow> m | None \<Rightarrow> [])"

text \<open>
  The statements lines 35 to 45 raise on: those that have not exactly one closing
  parenthesis, or not exactly one opening parenthesis before it, or an argument
  fragment with no trailing identifier. The exception raised is \<open>stmt_error\<close>.
\<close>

definition unparsable :: "string \<Rightarrow> bool" where
  "unparsable l =
     (count_list l CHR '')'' \<noteq> 1
      \<or> count_list (before_paren l) CHR ''('' \<noteq> 1
      \<or> list_ex (\<lambda>a. re_name_search (strip a) = None) (fragments l))"

definition stmt_error :: "string \<Rightarrow> py_error" where
  "stmt_error l =
     (if count_list l CHR '')'' \<noteq> 1 then ValueError (Suc (count_list l CHR '')''))
      else if count_list (before_paren l) CHR ''('' \<noteq> 1
      then ValueError (Suc (count_list (before_paren l) CHR ''(''))
      else AttributeError)"

text \<open>The exception of the first such statement among the pieces, if there is one.\<close>

definition run_error :: "string list \<Rightarrow> py_error option" where
  "run_error lines = map_option stmt_error (List.find unparsable (statements lines))"

text \<open>
  The member line and the prototype line of a statement, from its text: lines 53 and
  57.
\<close>

definition member_line :: "string \<Rightarrow> string" where
  "member_line l =
     print (CHR 0x09 # ''int (*'' @ name_of l @ '')(''
            @ join '', '' (map strip (fragments l)) @ '');'')"

definition prototype_line :: "string \<Rightarrow> string \<Rightarrow> string" where
  "prototype_line prefix l =
     print (''int '' @ prefix @ name_of l @ ''(''
            @ join '', '' (map strip (fragments l)) @ '');'')"

text \<open>
  The statements for which lines 58 to 70 print a whole trampoline: they parse, and
  with a name that starts with \<^verbatim>\<open>path_\<close> line 48 has recorded an argument.
\<close>

definition trampoline_ok :: "string \<Rightarrow> bool" where
  "trampoline_ok p =
     (\<not> unparsable p
      \<and> (startswith (name_of p) ''path_'' \<longrightarrow> collect_path_info (fragments p) \<noteq> []))"

text \<open>
  An example input whose second statement has no parentheses; its lines end with a
  carriage return and a line feed.
\<close>

definition good_then_bad :: string where
  "good_then_bad = ''close(struct path_info *fdinfo);'' @ [CHR 0x0D, CHR 0x0A]
                   @ ''bad_stmt_no_parens;'' @ [CHR 0x0D, CHR 0x0A]"

text \<open>An example input with a path statement and two descriptor statements.\<close>

definition mixed_ops :: string where
  "mixed_ops = ''path_link(struct path_info *old, struct path_info *new);\<newline>close(struct path_info *fdinfo);\<newline>sync(int fd);\<newline>''"

text \<open>An example input whose second statement is a path statement with no path-info argument.\<close>

definition path_without_info :: string where
  "path_without_info = ''close(struct path_info *fdinfo);\<newline>path_sync(int fd);\<newline>sync(int fd);\<newline>''"

section \<open>Properties\<close>

subsection \<open>Splitting, joining and stripping\<close>

lemma split_on_not_Nil: "split_on c s \<noteq> []"
  by (induction s) (auto split: list.splits)

lemma split_on_notin: "c \<notin> set s \<Longrightarrow> split_on c s = [s]"
  by (induction s) auto

lemma split_on_append: "c \<notin> set u \<Longrightarrow> split_on c (u @ c # v) = u # split_on c v"
proof (induction u)
  case Nil
  then show ?case using split_on_not_Nil [of c v] by (simp split: list.splits)
next
  case (Cons x u)
  then show ?case by auto
qed

lemma join_Cons_head: "join sep ((x # p) # ps) = x # join sep (p # ps)"
  by (cases ps) simp_all

lemma join_split_on: "join [c] (split_on c s) = s"
proof (induction s)
  case Nil
  then show ?case by simp
next
  case (Cons x s)
  then show ?case
    by (cases "split_on c s") (auto simp: join_Cons_head split_on_not_Nil)
qed

lemma split_on_pieces: "p \<in> set (split_on c s) \<Longrightarrow> c \<notin> set p"
proof (induction s arbitrary: p)
  case Nil
  then show ?case by simp
next
  case (Cons x s)
  then show ?case
    by (cases "split_on c s") (auto split: if_splits)
qed

lemma split_on_two:
  assumes "split_on c s = [a, b]"
  shows "s = a @ c # b" and "c \<notin> set a" and "c \<notin> set b"
proof -
  have "join [c] (split_on c s) = a @ c # b" by (simp add: assms)
  then show "s = a @ c # b" by (simp add: join_split_on)
  show "c \<notin> set a" "c \<notin> set b" using split_on_pieces [of _ c s] assms by simp_all
qed

lemma isspace_space: "isspace CHR '' ''"
  by (simp add: isspace_def)

lemma strip_space_Cons: "strip (CHR '' '' # s) = strip s"
  by (simp add: strip_def isspace_space)

lemma set_strip: "set (strip s) \<subseteq> set s"
proof -
  have "set (strip s) = set (dropWhile isspace (rev (dropWhile isspace s)))"
    by (simp add: strip_def)
  also have "\<dots> \<subseteq> set (rev (dropWhile isspace s))" by (meson set_dropWhileD subsetI)
  also have "\<dots> \<subseteq> set s" by (auto dest: set_dropWhileD)
  finally show ?thesis .
qed

lemma dropWhile_keeps_last:
  "xs \<noteq> [] \<Longrightarrow> \<not> P (last xs) \<Longrightarrow> dropWhile P xs \<noteq> [] \<and> last (dropWhile P xs) = last xs"
  by (induction xs) (auto split: if_splits)

lemma dropWhile_fixed: "xs = [] \<or> \<not> P (hd xs) \<Longrightarrow> dropWhile P xs = xs"
  by (cases xs) auto

lemma dropWhile_rev_dropWhile:
  assumes "t = [] \<or> \<not> P (hd t)"
  shows "dropWhile P (rev (dropWhile P (rev t))) = rev (dropWhile P (rev t))"
proof (cases "t = []")
  case True
  then show ?thesis by simp
next
  case False
  with assms have "rev t \<noteq> []" "\<not> P (last (rev t))" by (simp_all add: last_rev)
  then have u: "dropWhile P (rev t) \<noteq> []" "last (dropWhile P (rev t)) = hd t"
    using dropWhile_keeps_last [of "rev t" P] False by (simp_all add: last_rev)
  then have "\<not> P (hd (rev (dropWhile P (rev t))))"
    using assms False by (simp add: hd_rev)
  then show ?thesis by (intro dropWhile_fixed) simp
qed

lemma strip_idem: "strip (strip s) = strip s"
proof -
  let ?t = "dropWhile isspace s"
  have t: "?t = [] \<or> \<not> isspace (hd ?t)"
    using hd_dropWhile [of isspace s] by blast
  have a: "dropWhile isspace (strip s) = strip s"
    unfolding strip_def
    using dropWhile_rev_dropWhile [of "dropWhile isspace s" isspace] t by blast
  have "dropWhile isspace (rev (strip s)) = rev (strip s)"
    by (simp add: strip_def)
  with a show ?thesis
    by (simp add: strip_def [of "strip s"])
qed

subsection \<open>The header\<close>

lemma header_eq:
  "header = ''/* this file is generated by genvfs.sh */\<newline>#include ''
            @ [CHR 0x22] @ ''wasi_vfs_types.h'' @ [CHR 0x22] @ ''\<newline>''"
  by (simp add: header_def print_def)

text \<open>
  C9. In every mode, with every prefix and qualifier and on every input, what
  \<open>process\<close> writes begins with the two header lines: the notice that the file is
  generated, then the include of \<^verbatim>\<open>wasi_vfs_types.h\<close>. This holds also for a run that an
  exception ends.
\<close>

theorem process_begins_with_header:
  "startswith (fst (process lines mode prefix qual))
     (''/* this file is generated by genvfs.sh */\<newline>#include ''
      @ [CHR 0x22] @ ''wasi_vfs_types.h'' @ [CHR 0x22] @ ''\<newline>'')"
proof -
  obtain t r where "process_loop mode prefix lines = (t, r)"
    by (cases "process_loop mode prefix lines")
  then obtain rest where "fst (process lines mode prefix qual) = header @ rest"
    by (cases r) (simp_all add: process_def)
  then show ?thesis
    unfolding startswith_def header_eq by simp
qed

subsection \<open>The loop over the statements\<close>

lemma emit_no_error: "mode \<noteq> VfsDefine \<Longrightarrow> snd (emit mode prefix s) = None"
  by (cases mode) simp_all

lemma process_loop_text:
  assumes "mode \<noteq> VfsDefine"
  shows "process_loop mode prefix lines =
     (concat (map (\<lambda>l. fst (emit mode prefix (stmt_of l)))
                (takeWhile (\<lambda>l. \<not> isl (parse_stmt l)) (statements lines))),
      first_error lines)"
  unfolding first_error_def stmt_of_def
proof (induction lines)
  case Nil
  then show ?case by (simp add: statements_def)
next
  case (Cons l ls)
  show ?case
  proof (cases "strip l = []")
    case True
    then show ?thesis using Cons by (simp add: statements_def)
  next
    case False
    show ?thesis
    proof (cases "parse_stmt (strip l)")
      case (Inl e)
      then show ?thesis using False by (simp add: statements_def)
    next
      case (Inr s)
      obtain t where t: "emit mode prefix s = (t, None)"
        using emit_no_error [OF assms, of prefix s] by (cases "emit mode prefix s") simp
      show ?thesis using False Inr t Cons
        by (simp add: statements_def)
    qed
  qed
qed

lemma process_loop_define: "process_loop VfsDefine p lines = process_loop VfsDefine p' lines"
  by (induction lines) (simp_all add: Let_def split: sum.split)

lemma trampoline_name:
  "startswith (fst (emit VfsDefine prefix s)) (''int\<newline>wasi_vfs_'' @ fn s @ ''('')"
proof -
  have "\<exists>rest. fst (emit VfsDefine prefix s) = (''int\<newline>wasi_vfs_'' @ fn s @ ''('') @ rest"
    by (simp add: emit_define_def Let_def print_def split: list.split)
  then show ?thesis by (auto simp: startswith_def)
qed

text \<open>
  C5. The dispatch bodies do not depend on the prefix and the qualifier the caller
  passes: for any two pairs of them, \<open>process\<close> in mode \<open>VfsDefine\<close> returns the
  same text and the same outcome on the same pieces. Every trampoline is named
  \<^verbatim>\<open>wasi_vfs_<name>\<close>, from the fixed text of line 59, whatever the prefix is.
\<close>

theorem dispatch_ignores_prefix:
  "process lines VfsDefine prefix qual = process lines VfsDefine prefix' qual'
   \<and> startswith (fst (emit VfsDefine prefix s)) (''int\<newline>wasi_vfs_'' @ fn s @ ''('')"
  using process_loop_define [of prefix lines prefix'] trampoline_name [of prefix s]
  by (simp add: process_def)

subsection \<open>The dispatch bodies\<close>

lemma xdev_guards_map:
  "xdev_guards r (map g ks) =
     concat (map (\<lambda>k. print (CHR 0x09 # ''if (check_xdev('' @ r @ '', '' @ g k @ '')) {'')
                       @ print ([CHR 0x09, CHR 0x09] @ ''return EXDEV;'')
                       @ print (CHR 0x09 # ''}'')) ks)"
  by (induction ks) simp_all

lemma tl_by_index: "tl xs = map (\<lambda>k. xs ! Suc k) [0..<length xs - 1]"
  by (cases xs) (simp_all add: map_nth [symmetric] del: map_nth)

text \<open>
  The guards of a statement, from the path-info arguments that were recorded for it.
  With a name that starts with \<^verbatim>\<open>path_\<close> and at least two recorded path-info
  arguments, the trampoline is: the signature line and the opening brace; then one
  guard for each recorded argument after the first, in their order, so one less than
  their number, the \<open>k\<close>-th of them \<^verbatim>\<open>if (check_xdev(ref, cand)) {\<close>
  \<^verbatim>\<open>return EXDEV;\<close> \<^verbatim>\<open>}\<close> with \<open>ref\<close> the first recorded identifier and \<open>cand\<close>
  the one at position \<open>k + 1\<close>; then the one lookup \<^verbatim>\<open>path_vfs_ops(ref)\<close>; then the
  forwarding call and the closing brace. Nothing raises.
\<close>

lemma recorded_path_info_guards:
  assumes "startswith (fn s) ''path_''" and "2 \<le> length (path_info_arg s)"
  shows "emit VfsDefine prefix s =
    (print (''int\<newline>wasi_vfs_'' @ fn s @ ''('' @ join '', '' (args_sig s) @ '')'')
     @ print ''{''
     @ concat (map (\<lambda>k. print (CHR 0x09 # ''if (check_xdev('' @ path_info_arg s ! 0 @ '', ''
                                  @ path_info_arg s ! Suc k @ '')) {'')
                         @ print ([CHR 0x09, CHR 0x09] @ ''return EXDEV;'')
                         @ print (CHR 0x09 # ''}''))
                 [0..<length (path_info_arg s) - 1])
     @ print (CHR 0x09 # ''const struct wasi_vfs_ops *ops = path_vfs_ops(''
              @ path_info_arg s ! 0 @ '');'')
     @ print (CHR 0x09 # ''return ops->'' @ fn s @ ''('' @ join '', '' (args_name s) @ '');'')
     @ print ''}'', None)"
proof -
  obtain r cands where pia: "path_info_arg s = r # cands"
    using assms(2) by (cases "path_info_arg s") auto
  have "cands = map (\<lambda>k. path_info_arg s ! Suc k) [0..<length (path_info_arg s) - 1]"
    using tl_by_index [of "path_info_arg s"] pia by simp
  then have "xdev_guards r cands =
      xdev_guards r (map (\<lambda>k. path_info_arg s ! Suc k) [0..<length (path_info_arg s) - 1])"
    by simp
  then have "xdev_guards r cands =
      concat (map (\<lambda>k. print (CHR 0x09 # ''if (check_xdev('' @ r @ '', ''
                                  @ path_info_arg s ! Suc k @ '')) {'')
                         @ print ([CHR 0x09, CHR 0x09] @ ''return EXDEV;'')
                         @ print (CHR 0x09 # ''}''))
                 [0..<length (path_info_arg s) - 1])"
    by (simp only: xdev_guards_map)
  then show ?thesis
    using assms(1) pia by (simp add: emit_define_def)
qed

text \<open>The example \<^verbatim>\<open>path_link(struct path_info *old, struct path_info *new)\<close>.\<close>

lemma parse_path_link:
  "parse_stmt ''path_link(struct path_info *old, struct path_info *new)'' =
     Inr \<lparr>fn = ''path_link'',
          args_sig = [''struct path_info *old'', ''struct path_info *new''],
          args_name = [''old'', ''new''], path_info_arg = [''old'', ''new'']\<rparr>"
  by code_simp

lemma path_link_dispatch_body:
  "parse_stmt ''path_link(struct path_info *old, struct path_info *new)'' =
     Inr \<lparr>fn = ''path_link'',
          args_sig = [''struct path_info *old'', ''struct path_info *new''],
          args_name = [''old'', ''new''], path_info_arg = [''old'', ''new'']\<rparr>
   \<and> startswith ''path_link'' ''path_''
   \<and> 2 \<le> length [''old'', ''new'']
   \<and> emit VfsDefine ''wasi_vfs_''
         \<lparr>fn = ''path_link'',
          args_sig = [''struct path_info *old'', ''struct path_info *new''],
          args_name = [''old'', ''new''], path_info_arg = [''old'', ''new'']\<rparr> =
       (''int\<newline>wasi_vfs_path_link(struct path_info *old, struct path_info *new)\<newline>{\<newline>''
        @ [CHR 0x09] @ ''if (check_xdev(old, new)) {\<newline>''
        @ [CHR 0x09, CHR 0x09] @ ''return EXDEV;\<newline>''
        @ [CHR 0x09] @ ''}\<newline>''
        @ [CHR 0x09] @ ''const struct wasi_vfs_ops *ops = path_vfs_ops(old);\<newline>''
        @ [CHR 0x09] @ ''return ops->path_link(old, new);\<newline>''
        @ ''}\<newline>'', None)"
  using recorded_path_info_guards
          [of "\<lparr>fn = ''path_link'',
                args_sig = [''struct path_info *old'', ''struct path_info *new''],
                args_name = [''old'', ''new''], path_info_arg = [''old'', ''new'']\<rparr>"
              "''wasi_vfs_''"]
        parse_path_link
  by (simp add: startswith_def print_def)

subsection \<open>Which arguments are recorded as path-info\<close>

text \<open>
  The search of line 48 finds an identifier exactly in a fragment that ends with
  \<^verbatim>\<open>struct path_info *\<close> and a name (or with a line feed after the name, which no
  fragment of the content has).
\<close>

lemma lower_is_name_char: "is_lower c \<Longrightarrow> is_name_char c"
  by (auto simp: is_lower_def is_name_char_def)

lemma name_at_start_of_name: "is_name n \<Longrightarrow> name_at_start n = Some n"
proof (cases n)
  case Nil
  then show "is_name n \<Longrightarrow> ?thesis" by (simp add: is_name_def)
next
  case (Cons c t)
  assume "is_name n"
  with Cons have c: "is_lower c" and t: "list_all is_name_char t" by (simp_all add: is_name_def)
  from t have "dropWhile is_name_char t = []" "takeWhile is_name_char t = t"
    by (simp_all add: list_all_iff)
  with c Cons show ?thesis by (simp add: name_at_start_def)
qed

lemma name_at_start_Some:
  assumes "name_at_start x = Some g"
  shows "is_name g \<and> (x = g \<or> x = g @ ''\<newline>'')"
proof (cases x)
  case Nil
  with assms show ?thesis by (simp add: name_at_start_def)
next
  case (Cons c t)
  with assms have c: "is_lower c"
    and r: "dropWhile is_name_char t = [] \<or> dropWhile is_name_char t = ''\<newline>''"
    and g: "g = c # takeWhile is_name_char t"
    by (auto simp: name_at_start_def Let_def split: if_splits)
  have "list_all is_name_char (takeWhile is_name_char t)"
    by (auto simp: list_all_iff dest: set_takeWhileD)
  with c g have "is_name g" by (simp add: is_name_def)
  moreover have "t = takeWhile is_name_char t @ dropWhile is_name_char t" by simp
  then have "x = g @ dropWhile is_name_char t" using Cons g by simp
  ultimately show ?thesis using r by auto
qed

lemma is_name_chars: "is_name g \<Longrightarrow> list_all is_name_char g"
  by (cases g) (simp_all add: is_name_def lower_is_name_char)

lemma path_info_match_Some:
  assumes "path_info_match s = Some g"
  shows "is_name g \<and> (s = ''struct path_info *'' @ g \<or> s = ''struct path_info *'' @ g @ ''\<newline>'')"
proof -
  define L where "L = ''struct path_info *''"
  have len: "length L = 18" by (simp add: L_def)
  from assms have sw: "startswith s L" and n: "name_at_start (drop 18 s) = Some g"
    by (simp_all add: path_info_match_def L_def split: if_splits)
  from sw have "take 18 s = L" by (simp only: startswith_def len)
  moreover have "s = take 18 s @ drop 18 s" by simp
  ultimately have "s = L @ drop 18 s" by simp
  then have "is_name g \<and> (s = L @ g \<or> s = L @ g @ ''\<newline>'')"
    using name_at_start_Some [OF n] by auto
  then show ?thesis by (simp only: L_def)
qed

lemma re_path_info_search_Some:
  "re_path_info_search a = Some n \<Longrightarrow>
     is_name n \<and> (\<exists>pre. a = pre @ ''struct path_info *'' @ n
                      \<or> a = pre @ ''struct path_info *'' @ n @ ''\<newline>'')"
proof (induction a)
  case Nil
  then show ?case by (simp add: path_info_match_def startswith_def)
next
  case (Cons c t)
  show ?case
  proof (cases "path_info_match (c # t)")
    case None
    with Cons.prems have "re_path_info_search t = Some n" by simp
    then obtain pre where "is_name n"
      "t = pre @ ''struct path_info *'' @ n \<or> t = pre @ ''struct path_info *'' @ n @ ''\<newline>''"
      using Cons.IH by blast
    then have "is_name n \<and> (c # t = (c # pre) @ ''struct path_info *'' @ n
       \<or> c # t = (c # pre) @ ''struct path_info *'' @ n @ ''\<newline>'')" by auto
    then show ?thesis by blast
  next
    case (Some g)
    with Cons.prems have "g = n" by simp
    then have "is_name n \<and> (c # t = [] @ ''struct path_info *'' @ n
       \<or> c # t = [] @ ''struct path_info *'' @ n @ ''\<newline>'')"
      using path_info_match_Some [OF Some] by simp
    then show ?thesis by blast
  qed
qed

lemma star_not_name_char: "\<not> is_name_char CHR ''*''"
  by (simp add: is_name_char_def)

lemma newline_not_name_char: "\<not> is_name_char CHR ''\<newline>''"
  by (simp add: is_name_char_def)

lemma path_info_match_later:
  assumes "is_name n" and "pre \<noteq> []"
  shows "path_info_match (pre @ ''struct path_info *'' @ n) = None"
proof (rule ccontr)
  define L where "L = ''struct path_info *''"
  have len: "length L = 18" and star: "L ! 17 = CHR ''*''" by (simp_all add: L_def)
  assume "path_info_match (pre @ ''struct path_info *'' @ n) \<noteq> None"
  then obtain g where g: "path_info_match (pre @ ''struct path_info *'' @ n) = Some g" by auto
  from path_info_match_Some [OF g] have ng: "is_name g"
    and eq: "pre @ L @ n = L @ g \<or> pre @ L @ n = L @ g @ ''\<newline>''"
    by (simp_all only: L_def)
  have nn: "list_all is_name_char n" using assms(1) by (rule is_name_chars)
  have gg: "list_all is_name_char g" using ng by (rule is_name_chars)
  have n0: "n \<noteq> []" using assms(1) by (auto simp: is_name_def)
  then have "last (pre @ L @ n) = last n" by simp
  moreover have "is_name_char (last n)" using nn n0 by (simp add: list_all_iff)
  moreover have "last (L @ g @ ''\<newline>'') = CHR ''\<newline>''" by simp
  ultimately have eq': "pre @ L @ n = L @ g"
    using eq newline_not_name_char by metis
  have lg: "length g = length pre + length n"
    using arg_cong [OF eq', of length] by simp
  obtain k where k: "length pre = Suc k" using assms(2) by (cases pre) auto
  have "(pre @ L @ n) ! (length pre + 17) = CHR ''*''"
    using star len by (simp add: nth_append)
  then have "(L @ g) ! (18 + k) = CHR ''*''"
    using eq' k by simp
  then have "g ! k = CHR ''*''"
    using len by (simp add: nth_append)
  moreover have "k < length g" using lg k by simp
  ultimately have "CHR ''*'' \<in> set g" by (metis nth_mem)
  then show False using gg star_not_name_char by (auto simp: list_all_iff)
qed

lemma re_path_info_search_declared:
  assumes "is_name n"
  shows "re_path_info_search (pre @ ''struct path_info *'' @ n) = Some n"
proof (induction pre)
  case Nil
  have "path_info_match (''struct path_info *'' @ n) = Some n"
    using name_at_start_of_name [OF assms] by (simp add: path_info_match_def startswith_def)
  then show ?case by simp
next
  case (Cons c pre)
  have "path_info_match ((c # pre) @ ''struct path_info *'' @ n) = None"
    using path_info_match_later [OF assms, of "c # pre"] by simp
  then show ?case using Cons by simp
qed

text \<open>
  Line 48 searches the fragment as it was split, where line 43 strips it before the
  search for the name. Whitespace before the fragment makes no difference, and a
  fragment that does not end with whitespace is recorded exactly when the stripped
  fragment matches.
\<close>

lemma path_info_match_space: "isspace w \<Longrightarrow> path_info_match (w # a) = None"
  by (auto simp: path_info_match_def startswith_def isspace_def)

lemma re_path_info_search_dropWhile:
  "re_path_info_search (dropWhile isspace a) = re_path_info_search a"
  by (induction a) (simp_all add: path_info_match_space)

lemma last_dropWhile: "dropWhile P xs \<noteq> [] \<Longrightarrow> last (dropWhile P xs) = last xs"
  by (induction xs) (auto split: if_splits)

lemma strip_no_trailing_space:
  assumes "a = [] \<or> \<not> isspace (last a)"
  shows "strip a = dropWhile isspace a"
proof (cases "dropWhile isspace a = []")
  case True
  then show ?thesis by (simp add: strip_def del: dropWhile_eq_Nil_conv)
next
  case False
  then have "a \<noteq> []" by auto
  with assms have "\<not> isspace (last (dropWhile isspace a))"
    using last_dropWhile [OF False] by simp
  then have "dropWhile isspace (rev (dropWhile isspace a)) = rev (dropWhile isspace a)"
    using False by (intro dropWhile_fixed) (simp add: hd_rev)
  then show ?thesis by (simp add: strip_def)
qed

lemma recorded_when_no_trailing_space:
  "a = [] \<or> \<not> isspace (last a) \<Longrightarrow> re_path_info_search a = re_path_info_search (strip a)"
  by (simp add: strip_no_trailing_space re_path_info_search_dropWhile)

text \<open>
  C2. The claim holds of the path-info arguments that line 48 records (lemma
  \<open>recorded_path_info_guards\<close>), and the script misses it for a path-info argument
  that is followed by whitespace. In the statement
  \<^verbatim>\<open>path_link( struct path_info *old, struct path_info *new );\<close> both arguments are
  \<^verbatim>\<open>struct path_info *\<close> declarations, and both stripped fragments match the
  pattern, but the second fragment ends with a space, so only \<^verbatim>\<open>old\<close> is recorded:
  the trampoline has no guard between the opening brace and the lookup, where the
  claim requires the guard on \<^verbatim>\<open>old\<close> and \<^verbatim>\<open>new\<close>.
\<close>

theorem spaced_path_link_has_no_guard:
  "statements (lines_of ''path_link( struct path_info *old, struct path_info *new );'') =
     [''path_link( struct path_info *old, struct path_info *new )'']
   \<and> parse_stmt ''path_link( struct path_info *old, struct path_info *new )'' =
       Inr \<lparr>fn = ''path_link'',
            args_sig = [''struct path_info *old'', ''struct path_info *new''],
            args_name = [''old'', ''new''], path_info_arg = [''old'']\<rparr>
   \<and> List.map_filter re_path_info_search
         [''struct path_info *old'', ''struct path_info *new''] = [''old'', ''new'']
   \<and> process (lines_of ''path_link( struct path_info *old, struct path_info *new );'')
         VfsDefine ''wasi_vfs_'' ''static const'' =
       (''/* this file is generated by genvfs.sh */\<newline>#include ''
        @ [CHR 0x22] @ ''wasi_vfs_types.h'' @ [CHR 0x22] @ ''\<newline>''
        @ ''int\<newline>wasi_vfs_path_link(struct path_info *old, struct path_info *new)\<newline>{\<newline>''
        @ [CHR 0x09] @ ''const struct wasi_vfs_ops *ops = path_vfs_ops(old);\<newline>''
        @ [CHR 0x09] @ ''return ops->path_link(old, new);\<newline>''
        @ ''}\<newline>'', None)"
  by code_simp

lemma parse_close:
  "parse_stmt ''close(struct path_info *fdinfo)'' =
     Inr \<lparr>fn = ''close'', args_sig = [''struct path_info *fdinfo''],
          args_name = [''fdinfo''], path_info_arg = [''fdinfo'']\<rparr>"
  by code_simp

subsection \<open>Runs in which every statement parses\<close>

lemma first_error_None:
  assumes "\<forall>l\<in>set (statements lines). \<not> isl (parse_stmt l)"
  shows "first_error lines = None"
proof -
  have "dropWhile (\<lambda>l. \<not> isl (parse_stmt l)) (statements lines) = []"
    using assms by (simp add: dropWhile_eq_Nil_conv)
  then show ?thesis by (simp add: first_error_def del: dropWhile_eq_Nil_conv)
qed

lemma first_error_Some:
  assumes "l \<in> set (statements lines)" and "isl (parse_stmt l)"
  shows "\<exists>e. first_error lines = Some e"
proof -
  have "dropWhile (\<lambda>l. \<not> isl (parse_stmt l)) (statements lines) \<noteq> []"
    using assms by auto
  then show ?thesis
    by (cases "dropWhile (\<lambda>l. \<not> isl (parse_stmt l)) (statements lines)")
       (simp_all add: first_error_def)
qed

lemma process_good:
  assumes "mode \<noteq> VfsDefine" and "\<forall>l\<in>set (statements lines). \<not> isl (parse_stmt l)"
  shows "process_loop mode prefix lines =
     (concat (map (\<lambda>l. fst (emit mode prefix (stmt_of l))) (statements lines)), None)"
proof -
  have "takeWhile (\<lambda>l. \<not> isl (parse_stmt l)) (statements lines) = statements lines"
    using assms(2) by (simp add: takeWhile_eq_all_conv)
  moreover have "dropWhile (\<lambda>l. \<not> isl (parse_stmt l)) (statements lines) = []"
    using assms(2) by (simp add: dropWhile_eq_Nil_conv)
  ultimately show ?thesis
    by (simp add: process_loop_text [OF assms(1)] first_error_def
             del: dropWhile_eq_Nil_conv takeWhile_eq_all_conv)
qed

text \<open>
  C7. When every statement of the input parses, mode \<open>VfsStructDefine\<close> writes, after
  the header, the line \<^verbatim>\<open><qual> struct wasi_vfs_ops <prefix>ops = {\<close>, then for each
  statement, in order, exactly one line \<^verbatim>\<open>.<name> = <prefix><name>,\<close> after a tab, then
  the line \<^verbatim>\<open>};\<close>, and raises nothing.
\<close>

theorem struct_initializer_lines:
  assumes "\<forall>l\<in>set (statements lines). \<not> isl (parse_stmt l)"
  shows "process lines VfsStructDefine prefix qual =
    (header
     @ print (qual @ '' struct wasi_vfs_ops '' @ prefix @ ''ops = {'')
     @ concat (map (\<lambda>l. print (CHR 0x09 # ''.'' @ fn (stmt_of l) @ '' = ''
                                 @ prefix @ fn (stmt_of l) @ '',''))
                 (statements lines))
     @ print ''};'', None)"
  using process_good [OF _ assms, of VfsStructDefine prefix]
  by (simp add: process_def)

lemma statements_two_ops:
  "statements (lines_of two_ops) =
     [''close(struct path_info *fdinfo)'',
      ''path_link(struct path_info *old,          struct path_info *new)'']"
  by code_simp

lemma parse_path_link_spaced:
  "parse_stmt ''path_link(struct path_info *old,          struct path_info *new)'' =
     Inr \<lparr>fn = ''path_link'',
          args_sig = [''struct path_info *old'', ''struct path_info *new''],
          args_name = [''old'', ''new''], path_info_arg = [''old'', ''new'']\<rparr>"
  by code_simp

theorem struct_initializer_lines_witness:
  "statements (lines_of two_ops) =
     [''close(struct path_info *fdinfo)'',
      ''path_link(struct path_info *old,          struct path_info *new)'']
   \<and> \<not> isl (parse_stmt ''close(struct path_info *fdinfo)'')
   \<and> \<not> isl (parse_stmt ''path_link(struct path_info *old,          struct path_info *new)'')
   \<and> process (lines_of two_ops) VfsStructDefine ''wasi_host_'' ''static const'' =
       (''/* this file is generated by genvfs.sh */\<newline>#include ''
        @ [CHR 0x22] @ ''wasi_vfs_types.h'' @ [CHR 0x22] @ ''\<newline>''
        @ ''static const struct wasi_vfs_ops wasi_host_ops = {\<newline>''
        @ [CHR 0x09] @ ''.close = wasi_host_close,\<newline>''
        @ [CHR 0x09] @ ''.path_link = wasi_host_path_link,\<newline>''
        @ ''};\<newline>'', None)"
  using struct_initializer_lines [of "lines_of two_ops" "''wasi_host_''" "''static const''"]
        statements_two_ops parse_close parse_path_link_spaced
  by (simp add: stmt_of_def print_def header_def)

lemma parse_stmt_text:
  assumes "parse_stmt l = Inr s"
  shows "\<exists>a t. l = fn s @ ''('' @ a @ '')'' @ t \<and> args_sig s = map strip (split_on CHR '','' a)"
proof -
  from assms obtain h t where ht: "split_on CHR '')'' l = [h, t]"
    by (auto simp: parse_stmt_def split: list.splits)
  with assms obtain f a where fa: "split_on CHR ''('' h = [f, a]"
    by (auto simp: parse_stmt_def split: list.splits)
  from assms ht fa have "fn s = f" "args_sig s = map strip (split_on CHR '','' a)"
    by (auto simp: parse_stmt_def Let_def split: sum.splits)
  moreover have "l = h @ CHR '')'' # t" using split_on_two(1) [OF ht] .
  moreover have "h = f @ CHR ''('' # a" using split_on_two(1) [OF fa] .
  ultimately show ?thesis by auto
qed

lemma split_on_space_Cons:
  "c \<noteq> CHR '' '' \<Longrightarrow> map strip (split_on c (CHR '' '' # s)) = map strip (split_on c s)"
  using split_on_not_Nil [of c s]
  by (cases "split_on c s") (simp_all add: strip_space_Cons)

lemma split_join_roundtrip:
  assumes "xs \<noteq> []" and "\<forall>x\<in>set xs. CHR '','' \<notin> set x \<and> strip x = x"
  shows "map strip (split_on CHR '','' (join '', '' xs)) = xs"
  using assms
proof (induction "'', ''" xs rule: join.induct)
  case 1
  then show ?case by simp
next
  case (2 x)
  then show ?case by (simp add: split_on_notin)
next
  case (3 x y ys)
  then have "map strip (split_on CHR '','' (join '', '' (y # ys))) = y # ys" by simp
  moreover have "CHR '','' \<notin> set x" "strip x = x" using 3 by simp_all
  ultimately show ?case
    using split_on_append [of "CHR '',''" x "CHR '' '' # join '', '' (y # ys)"]
    by (simp add: split_on_space_Cons del: split_on.simps)
qed

lemma args_sig_reparse:
  assumes "parse_stmt l = Inr s"
  shows "map strip (split_on CHR '','' (join '', '' (args_sig s))) = args_sig s"
proof -
  obtain a where a: "args_sig s = map strip (split_on CHR '','' a)"
    using parse_stmt_text [OF assms] by blast
  have "args_sig s \<noteq> []" by (simp add: a split_on_not_Nil)
  moreover have "\<forall>x\<in>set (args_sig s). CHR '','' \<notin> set x \<and> strip x = x"
    using split_on_pieces [of _ "CHR '',''" a] set_strip by (auto simp: a strip_idem)
  ultimately show ?thesis by (rule split_join_roundtrip)
qed

subsection \<open>Statements by their text\<close>

lemma length_split_on: "length (split_on c s) = Suc (count_list s c)"
proof (induction s)
  case Nil
  then show ?case by simp
next
  case (Cons x s)
  then show ?case
    by (cases "split_on c s") auto
qed

lemma takeWhile_split: "c \<notin> set a \<Longrightarrow> takeWhile (\<lambda>x. x \<noteq> c) (a @ c # b) = a"
  by (induction a) auto

lemma dropWhile_split: "c \<notin> set a \<Longrightarrow> dropWhile (\<lambda>x. x \<noteq> c) (a @ c # b) = c # b"
  by (induction a) auto

lemma split_on_one:
  assumes "count_list s c = 1"
  shows "split_on c s = [takeWhile (\<lambda>x. x \<noteq> c) s, tl (dropWhile (\<lambda>x. x \<noteq> c) s)]"
proof -
  have "length (split_on c s) = 2" using assms by (simp add: length_split_on)
  then obtain a b where ab: "split_on c s = [a, b]"
    by (cases "split_on c s") (auto simp: length_Suc_conv)
  from split_on_two [OF ab] have "s = a @ c # b" "c \<notin> set a" by simp_all
  then have "takeWhile (\<lambda>x. x \<noteq> c) s = a" "tl (dropWhile (\<lambda>x. x \<noteq> c) s) = b"
    by (simp_all add: takeWhile_split dropWhile_split)
  with ab show ?thesis by simp
qed

lemma split_on_not_two:
  "count_list s c \<noteq> 1 \<Longrightarrow> length (split_on c s) \<noteq> 2"
  by (simp add: length_split_on)

lemma collect_names_Inl:
  "isl (collect_names as) \<longleftrightarrow> list_ex (\<lambda>a. re_name_search (strip a) = None) as"
  by (induction as) (auto split: option.splits sum.splits)

lemma collect_names_error: "collect_names as = Inl e \<Longrightarrow> e = AttributeError"
  by (induction as arbitrary: e) (auto split: option.splits sum.splits)

lemma collect_names_Inr:
  "\<not> list_ex (\<lambda>a. re_name_search (strip a) = None) as \<Longrightarrow>
     collect_names as = Inr (map identifier_of as)"
  by (induction as) (auto simp: identifier_of_def split: option.splits sum.splits)

lemma parse_stmt_shape:
  assumes "count_list l CHR '')'' = 1" and "count_list (before_paren l) CHR ''('' = 1"
  shows "parse_stmt l =
     (case collect_names (fragments l) of
        Inl e \<Rightarrow> Inl e
      | Inr names \<Rightarrow>
          Inr \<lparr>fn = name_of l, args_sig = map strip (fragments l), args_name = names,
               path_info_arg = collect_path_info (fragments l)\<rparr>)"
  using split_on_one [OF assms(1)] split_on_one [OF assms(2) [unfolded before_paren_def]]
  by (simp add: parse_stmt_def before_paren_def name_of_def args_of_def fragments_def Let_def
           split: sum.split)

lemma parse_stmt_no_close:
  "count_list l CHR '')'' \<noteq> 1 \<Longrightarrow>
     parse_stmt l = Inl (ValueError (Suc (count_list l CHR '')'')))"
proof -
  assume a: "count_list l CHR '')'' \<noteq> 1"
  have len: "length (split_on CHR '')'' l) = Suc (count_list l CHR '')'')"
    by (rule length_split_on)
  with a have "length (split_on CHR '')'' l) \<noteq> 2" by simp
  then show ?thesis
    using len by (auto simp: parse_stmt_def split: list.splits)
qed

lemma parse_stmt_no_open:
  assumes "count_list l CHR '')'' = 1" and "count_list (before_paren l) CHR ''('' \<noteq> 1"
  shows "parse_stmt l = Inl (ValueError (Suc (count_list (before_paren l) CHR ''('')))"
proof -
  have len: "length (split_on CHR ''('' (before_paren l)) = Suc (count_list (before_paren l) CHR ''('')"
    by (rule length_split_on)
  with assms(2) have "length (split_on CHR ''('' (before_paren l)) \<noteq> 2" by simp
  then show ?thesis
    using len split_on_one [OF assms(1)]
    by (auto simp: parse_stmt_def before_paren_def split: list.splits)
qed

lemma parse_fails_iff: "isl (parse_stmt l) \<longleftrightarrow> unparsable l"
proof (cases "count_list l CHR '')'' = 1")
  case False
  then show ?thesis by (simp add: parse_stmt_no_close unparsable_def)
next
  case c1: True
  show ?thesis
  proof (cases "count_list (before_paren l) CHR ''('' = 1")
    case False
    then show ?thesis using c1 by (simp add: parse_stmt_no_open unparsable_def)
  next
    case True
    then show ?thesis
      using c1 collect_names_Inl [of "fragments l"]
      by (auto simp: parse_stmt_shape unparsable_def split: sum.splits)
  qed
qed

lemma parse_stmt_parsable:
  assumes "\<not> unparsable l"
  shows "parse_stmt l =
     Inr \<lparr>fn = name_of l, args_sig = map strip (fragments l),
          args_name = map identifier_of (fragments l),
          path_info_arg = collect_path_info (fragments l)\<rparr>"
  using assms by (simp add: unparsable_def parse_stmt_shape collect_names_Inr)

lemma stmt_of_parsable:
  assumes "\<not> unparsable l"
  shows "stmt_of l =
     \<lparr>fn = name_of l, args_sig = map strip (fragments l),
      args_name = map identifier_of (fragments l),
      path_info_arg = collect_path_info (fragments l)\<rparr>"
  by (simp add: stmt_of_def parse_stmt_parsable [OF assms])

lemma no_close_paren_unparsable: "CHR '')'' \<notin> set l \<Longrightarrow> unparsable l"
  by (simp add: unparsable_def)

lemma no_open_paren_unparsable: "CHR ''('' \<notin> set l \<Longrightarrow> unparsable l"
proof -
  assume a: "CHR ''('' \<notin> set l"
  have "set (before_paren l) \<subseteq> set l"
    by (auto simp: before_paren_def dest: set_takeWhileD)
  with a have "CHR ''('' \<notin> set (before_paren l)" by blast
  then show ?thesis by (simp add: unparsable_def)
qed

lemma parsable_text:
  assumes "\<not> unparsable l"
  shows "\<exists>t. l = name_of l @ ''('' @ args_of l @ '')'' @ t"
proof -
  from assms have c1: "count_list l CHR '')'' = 1" and c2: "count_list (before_paren l) CHR ''('' = 1"
    by (simp_all add: unparsable_def)
  from split_on_two(1) [OF split_on_one [OF c1]]
  have l: "l = before_paren l @ CHR '')'' # tl (dropWhile (\<lambda>x. x \<noteq> CHR '')'') l)"
    by (simp add: before_paren_def)
  from split_on_two(1) [OF split_on_one [OF c2]]
  have "before_paren l = name_of l @ CHR ''('' # args_of l"
    by (simp add: name_of_def args_of_def)
  with l have "l = name_of l @ ''('' @ args_of l @ '')'' @ tl (dropWhile (\<lambda>x. x \<noteq> CHR '')'') l)"
    by simp
  then show ?thesis ..
qed

subsection \<open>Runs in which a statement does not parse\<close>

lemma parse_stmt_unparsable:
  assumes "unparsable l"
  shows "parse_stmt l = Inl (stmt_error l)"
proof (cases "count_list l CHR '')'' = 1")
  case False
  then show ?thesis by (simp add: parse_stmt_no_close stmt_error_def)
next
  case c1: True
  show ?thesis
  proof (cases "count_list (before_paren l) CHR ''('' = 1")
    case False
    then show ?thesis using c1 by (simp add: parse_stmt_no_open stmt_error_def)
  next
    case True
    with c1 assms have "isl (collect_names (fragments l))"
      by (simp add: unparsable_def collect_names_Inl)
    then obtain e where e: "collect_names (fragments l) = Inl e"
      by (cases "collect_names (fragments l)") simp_all
    then have "e = AttributeError" by (rule collect_names_error)
    then show ?thesis using c1 True e by (simp add: parse_stmt_shape stmt_error_def)
  qed
qed

lemma parsable_pred: "(\<lambda>l. \<not> isl (parse_stmt l)) = (\<lambda>l. \<not> unparsable l)"
  by (simp add: parse_fails_iff)

lemma first_error_run_error: "first_error lines = run_error lines"
proof -
  have "first_error lines =
      (case dropWhile (\<lambda>l. \<not> unparsable l) (statements lines) of
         [] \<Rightarrow> None | l # _ \<Rightarrow> Some (projl (parse_stmt l)))"
    by (simp add: first_error_def parsable_pred)
  also have "\<dots> = run_error lines"
  proof (cases "dropWhile (\<lambda>l. \<not> unparsable l) (statements lines)")
    case Nil
    then show ?thesis
      by (simp add: run_error_def find_dropWhile comp_def del: dropWhile_eq_Nil_conv)
  next
    case (Cons l ls)
    then have "unparsable l" using hd_dropWhile [of "\<lambda>l. \<not> unparsable l" "statements lines"] by simp
    then show ?thesis using Cons
      by (simp add: run_error_def find_dropWhile comp_def parse_stmt_unparsable
               del: dropWhile_eq_Nil_conv)
  qed
  finally show ?thesis .
qed

lemma run_error_Some:
  assumes "l \<in> set (statements lines)" and "unparsable l"
  shows "run_error lines \<noteq> None"
  using assms by (auto simp: run_error_def find_None_iff)

lemma member_line_emit:
  "\<not> unparsable l \<Longrightarrow> fst (emit VfsStructDecl prefix (stmt_of l)) = member_line l"
  by (simp add: stmt_of_parsable member_line_def)

lemma takeWhile_members:
  "map (\<lambda>l. fst (emit VfsStructDecl prefix (stmt_of l))) (takeWhile (\<lambda>l. \<not> unparsable l) xs)
   = map member_line (takeWhile (\<lambda>l. \<not> unparsable l) xs)"
proof (rule map_cong)
  fix x assume "x \<in> set (takeWhile (\<lambda>l. \<not> unparsable l) xs)"
  then have "\<not> unparsable x" by (auto dest: set_takeWhileD)
  then show "fst (emit VfsStructDecl prefix (stmt_of x)) = member_line x"
    by (rule member_line_emit)
qed simp

lemma write_all_unparsable:
  assumes "l \<in> set (statements lines)" and "unparsable l"
  shows "write_all lines fs =
     (run_error lines,
      fs(''wasi_vfs_ops.h'' \<mapsto>
           Text (header
                 @ print ''struct wasi_vfs_ops {''
                 @ concat (map member_line
                             (takeWhile (\<lambda>l. \<not> unparsable l) (statements lines))))))"
proof -
  obtain e where e: "run_error lines = Some e"
    using run_error_Some [OF assms] by auto
  then have "first_error lines = Some e" by (simp add: first_error_run_error)
  then have "process lines VfsStructDecl default_prefix default_qual =
     (header @ print ''struct wasi_vfs_ops {''
      @ concat (map member_line (takeWhile (\<lambda>l. \<not> unparsable l) (statements lines))),
      Some e)"
    by (simp add: process_def process_loop_text parsable_pred takeWhile_members
             del: emit.simps)
  then show ?thesis using e by (simp add: write_all_def)
qed

text \<open>
  C1, as amended. Let the definition file be read and let one of its statements be one
  the script cannot parse: it has not exactly one closing parenthesis, or the text
  before that parenthesis has not exactly one opening parenthesis, or one of its
  argument fragments has no trailing identifier. Then the run ends with the exception
  of the first such statement, and it is not all-or-nothing: \<^verbatim>\<open>wasi_vfs_ops.h\<close> has
  been created and holds the header, the line \<^verbatim>\<open>struct wasi_vfs_ops {\<close> and the member
  lines of the statements before that one, without the closing line. No other file is
  created or changed. A statement with no parenthesis is such a statement (lemmas
  \<open>no_close_paren_unparsable\<close> and \<open>no_open_paren_unparsable\<close>); a statement with
  an empty name or with text after the closing parenthesis is not (lemma
  \<open>nameless_statement_accepted\<close> below).
\<close>

theorem failed_run_leaves_partial_file:
  assumes "read_text fs filename = Inr content"
    and "l \<in> set (statements (lines_of content))"
    and "unparsable l"
  shows "fst (main fs) = run_error (lines_of content)
       \<and> run_error (lines_of content) \<noteq> None
       \<and> snd (main fs) =
           fs(''wasi_vfs_ops.h'' \<mapsto>
                Text (header
                      @ print ''struct wasi_vfs_ops {''
                      @ concat (map member_line
                                  (takeWhile (\<lambda>l. \<not> unparsable l)
                                     (statements (lines_of content))))))"
  using assms(1) write_all_unparsable [OF assms(2,3), of fs] run_error_Some [OF assms(2,3)]
  by (simp add: main_def)

lemma main_unparsable:
  assumes "read_text fs filename = Inr content"
    and "l \<in> set (statements (lines_of content))"
    and "unparsable l"
  shows "main fs =
     (run_error (lines_of content),
      fs(''wasi_vfs_ops.h'' \<mapsto>
           Text (header
                 @ print ''struct wasi_vfs_ops {''
                 @ concat (map member_line
                             (takeWhile (\<lambda>l. \<not> unparsable l)
                                (statements (lines_of content)))))))"
  using assms(1) write_all_unparsable [OF assms(2,3), of fs]
  by (simp add: main_def)

lemma read_good_then_bad:
  "read_text [filename \<mapsto> Text good_then_bad] filename =
     Inr ''close(struct path_info *fdinfo);\<newline>bad_stmt_no_parens;\<newline>''"
  by code_simp

lemma statements_good_then_bad:
  "statements (lines_of ''close(struct path_info *fdinfo);\<newline>bad_stmt_no_parens;\<newline>'') =
     [''close(struct path_info *fdinfo)'', ''bad_stmt_no_parens'']"
  by code_simp

lemma unparsable_examples:
  "unparsable ''bad_stmt_no_parens''"
  "\<not> unparsable ''close(struct path_info *fdinfo)''"
  "\<not> unparsable ''(int a) junk''"
  by code_simp+

lemma run_error_good_then_bad:
  "run_error (lines_of ''close(struct path_info *fdinfo);\<newline>bad_stmt_no_parens;\<newline>'') =
     Some (ValueError 1)"
  by code_simp

lemma member_line_close:
  "member_line ''close(struct path_info *fdinfo)'' =
     [CHR 0x09] @ ''int (*close)(struct path_info *fdinfo);\<newline>''"
  by code_simp

theorem failed_run_leaves_partial_file_witness:
  "read_text [filename \<mapsto> Text good_then_bad] filename =
     Inr ''close(struct path_info *fdinfo);\<newline>bad_stmt_no_parens;\<newline>''
   \<and> ''bad_stmt_no_parens'' \<in> set (statements (lines_of
         ''close(struct path_info *fdinfo);\<newline>bad_stmt_no_parens;\<newline>''))
   \<and> unparsable ''bad_stmt_no_parens''
   \<and> fst (main [filename \<mapsto> Text good_then_bad]) = Some (ValueError 1)
   \<and> snd (main [filename \<mapsto> Text good_then_bad]) =
       [filename \<mapsto> Text good_then_bad,
        ''wasi_vfs_ops.h'' \<mapsto>
          Text (''/* this file is generated by genvfs.sh */\<newline>#include ''
                @ [CHR 0x22] @ ''wasi_vfs_types.h'' @ [CHR 0x22] @ ''\<newline>''
                @ ''struct wasi_vfs_ops {\<newline>''
                @ [CHR 0x09] @ ''int (*close)(struct path_info *fdinfo);\<newline>'')]"
  using failed_run_leaves_partial_file
          [of "[filename \<mapsto> Text good_then_bad]"
              "''close(struct path_info *fdinfo);\<newline>bad_stmt_no_parens;\<newline>''"
              "''bad_stmt_no_parens''"]
        read_good_then_bad statements_good_then_bad unparsable_examples
        run_error_good_then_bad member_line_close
  by (simp add: print_def header_def)

text \<open>
  The claim as stated fails on its own example. With the definition file holding
  \<^verbatim>\<open>bad_stmt_no_parens\<close> and no output file present, the run ends with the
  \<open>ValueError\<close> of line 35, and \<^verbatim>\<open>wasi_vfs_ops.h\<close> exists afterwards, holding the
  header and the opening line of the struct; the two other files do not exist.
\<close>

theorem bad_stmt_creates_output_file:
  "fst (main [filename \<mapsto> Text ''bad_stmt_no_parens'']) = Some (ValueError 1)
   \<and> snd (main [filename \<mapsto> Text ''bad_stmt_no_parens'']) ''wasi_vfs_ops.h'' =
       Some (Text (''/* this file is generated by genvfs.sh */\<newline>#include ''
             @ [CHR 0x22] @ ''wasi_vfs_types.h'' @ [CHR 0x22] @ ''\<newline>''
             @ ''struct wasi_vfs_ops {\<newline>''))
   \<and> snd (main [filename \<mapsto> Text ''bad_stmt_no_parens'']) ''wasi_vfs.h'' = None
   \<and> snd (main [filename \<mapsto> Text ''bad_stmt_no_parens'']) ''wasi_vfs_dispatch.h'' = None"
  by code_simp

text \<open>
  Not every statement that is not of the shape \<^verbatim>\<open>name(args)\<close> ends the run: one with
  an empty name and with text after the parenthesis is parsed, and the three files
  are written for it.
\<close>

lemma nameless_statement_accepted:
  "\<not> unparsable ''(int a) junk''
   \<and> main [filename \<mapsto> Text ''(int a) junk;''] =
       (None,
        [filename \<mapsto> Text ''(int a) junk;'',
         ''wasi_vfs_ops.h'' \<mapsto>
           Text (''/* this file is generated by genvfs.sh */\<newline>#include ''
                 @ [CHR 0x22] @ ''wasi_vfs_types.h'' @ [CHR 0x22] @ ''\<newline>''
                 @ ''struct wasi_vfs_ops {\<newline>''
                 @ [CHR 0x09] @ ''int (*)(int a);\<newline>''
                 @ ''};\<newline>''),
         ''wasi_vfs.h'' \<mapsto>
           Text (''/* this file is generated by genvfs.sh */\<newline>#include ''
                 @ [CHR 0x22] @ ''wasi_vfs_types.h'' @ [CHR 0x22] @ ''\<newline>''
                 @ ''int wasi_vfs_(int a);\<newline>''),
         ''wasi_vfs_dispatch.h'' \<mapsto>
           Text (''/* this file is generated by genvfs.sh */\<newline>#include ''
                 @ [CHR 0x22] @ ''wasi_vfs_types.h'' @ [CHR 0x22] @ ''\<newline>''
                 @ ''int\<newline>wasi_vfs_(int a)\<newline>{\<newline>''
                 @ [CHR 0x09] @ ''const struct wasi_vfs_ops *ops = fdinfo_vfs_ops(fdinfo);\<newline>''
                 @ [CHR 0x09] @ ''return ops->(a);\<newline>''
                 @ ''}\<newline>'')])"
proof -
  have r: "read_text [filename \<mapsto> Text ''(int a) junk;''] filename = Inr ''(int a) junk;''"
    by code_simp
  have p: "process (lines_of ''(int a) junk;'') VfsStructDecl default_prefix default_qual =
      (''/* this file is generated by genvfs.sh */\<newline>#include ''
                 @ [CHR 0x22] @ ''wasi_vfs_types.h'' @ [CHR 0x22] @ ''\<newline>''
                 @ ''struct wasi_vfs_ops {\<newline>''
                 @ [CHR 0x09] @ ''int (*)(int a);\<newline>''
                 @ ''};\<newline>'', None)"
    "process (lines_of ''(int a) junk;'') VfsPrototype default_prefix default_qual =
      (''/* this file is generated by genvfs.sh */\<newline>#include ''
                 @ [CHR 0x22] @ ''wasi_vfs_types.h'' @ [CHR 0x22] @ ''\<newline>''
                 @ ''int wasi_vfs_(int a);\<newline>'', None)"
    "process (lines_of ''(int a) junk;'') VfsDefine default_prefix default_qual =
      (''/* this file is generated by genvfs.sh */\<newline>#include ''
                 @ [CHR 0x22] @ ''wasi_vfs_types.h'' @ [CHR 0x22] @ ''\<newline>''
                 @ ''int\<newline>wasi_vfs_(int a)\<newline>{\<newline>''
                 @ [CHR 0x09] @ ''const struct wasi_vfs_ops *ops = fdinfo_vfs_ops(fdinfo);\<newline>''
                 @ [CHR 0x09] @ ''return ops->(a);\<newline>''
                 @ ''}\<newline>'', None)"
    by code_simp+
  show ?thesis
    using unparsable_examples(3) by (simp add: main_def r write_all_def p)
qed

text \<open>
  C6, as amended. Let the definition file be read, let one of its statements have
  exactly one closing parenthesis and exactly one opening parenthesis before it, and
  let one of its argument fragments, stripped, have no match of
  \<^verbatim>\<open>[a-z][_a-z0-9]*$\<close> (the empty fragment of \<^verbatim>\<open>name()\<close> is one). Then the parse of
  that statement raises \<open>AttributeError\<close>, the same value whatever the fragment is,
  and the run ends with an uncaught exception, the one of the first statement of the
  file that does not parse.
\<close>

theorem missing_identifier_fails:
  assumes "read_text fs filename = Inr content"
    and "l \<in> set (statements (lines_of content))"
    and "count_list l CHR '')'' = 1"
    and "count_list (before_paren l) CHR ''('' = 1"
    and "a \<in> set (fragments l)"
    and "re_name_search (strip a) = None"
  shows "parse_stmt l = Inl AttributeError
       \<and> fst (main fs) = run_error (lines_of content)
       \<and> run_error (lines_of content) \<noteq> None"
proof -
  have u: "unparsable l"
    using assms(5,6) by (auto simp: unparsable_def list_ex_iff)
  have "stmt_error l = AttributeError"
    using assms(3,4) by (simp add: stmt_error_def)
  then have "parse_stmt l = Inl AttributeError"
    using parse_stmt_unparsable [OF u] by simp
  then show ?thesis
    using main_unparsable [OF assms(1,2) u] run_error_Some [OF assms(2) u] by simp
qed

lemma empty_args_facts:
  "read_text [filename \<mapsto> Text ''f();''] filename = Inr ''f();''"
  "statements (lines_of ''f();'') = [''f()'']"
  "count_list ''f()'' CHR '')'' = 1"
  "count_list (before_paren ''f()'') CHR ''('' = 1"
  "fragments ''f()'' = ['''']"
  "re_name_search (strip '''') = None"
  "run_error (lines_of ''f();'') = Some AttributeError"
  by code_simp+

theorem missing_identifier_fails_witness:
  "read_text [filename \<mapsto> Text ''f();''] filename = Inr ''f();''
   \<and> ''f()'' \<in> set (statements (lines_of ''f();''))
   \<and> count_list ''f()'' CHR '')'' = 1
   \<and> count_list (before_paren ''f()'') CHR ''('' = 1
   \<and> '''' \<in> set (fragments ''f()'')
   \<and> re_name_search (strip '''') = None
   \<and> parse_stmt ''f()'' = Inl AttributeError
   \<and> fst (main [filename \<mapsto> Text ''f();'']) = Some AttributeError"
  using missing_identifier_fails
          [of "[filename \<mapsto> Text ''f();'']" "''f();''" "''f()''" "''''"]
        empty_args_facts
  by simp

text \<open>
  The claim as stated fails: the diagnostic does not identify the fragment. The
  definition files \<^verbatim>\<open>f(1);\<close> and \<^verbatim>\<open>f(2);\<close> have different offending fragments, and
  the two runs end with the same exception and leave the same output.
\<close>

theorem diagnostic_hides_fragment:
  "main [filename \<mapsto> Text ''f(1);''] =
     (Some AttributeError,
      [filename \<mapsto> Text ''f(1);'',
       ''wasi_vfs_ops.h'' \<mapsto>
          Text (''/* this file is generated by genvfs.sh */\<newline>#include ''
                @ [CHR 0x22] @ ''wasi_vfs_types.h'' @ [CHR 0x22] @ ''\<newline>''
                @ ''struct wasi_vfs_ops {\<newline>'')])
   \<and> main [filename \<mapsto> Text ''f(2);''] =
     (Some AttributeError,
      [filename \<mapsto> Text ''f(2);'',
       ''wasi_vfs_ops.h'' \<mapsto>
          Text (''/* this file is generated by genvfs.sh */\<newline>#include ''
                @ [CHR 0x22] @ ''wasi_vfs_types.h'' @ [CHR 0x22] @ ''\<newline>''
                @ ''struct wasi_vfs_ops {\<newline>'')])"
proof -
  have r: "read_text [filename \<mapsto> Text ''f(1);''] filename = Inr ''f(1);''"
          "read_text [filename \<mapsto> Text ''f(2);''] filename = Inr ''f(2);''"
    by code_simp+
  have p: "process (lines_of ''f(1);'') VfsStructDecl default_prefix default_qual =
      (''/* this file is generated by genvfs.sh */\<newline>#include ''
                @ [CHR 0x22] @ ''wasi_vfs_types.h'' @ [CHR 0x22] @ ''\<newline>''
                @ ''struct wasi_vfs_ops {\<newline>'', Some AttributeError)"
      "process (lines_of ''f(2);'') VfsStructDecl default_prefix default_qual =
      (''/* this file is generated by genvfs.sh */\<newline>#include ''
                @ [CHR 0x22] @ ''wasi_vfs_types.h'' @ [CHR 0x22] @ ''\<newline>''
                @ ''struct wasi_vfs_ops {\<newline>'', Some AttributeError)"
    by code_simp+
  show ?thesis by (simp add: main_def r write_all_def p)
qed

subsection \<open>The dispatch bodies of a file\<close>

lemma statements_stripped:
  "l \<in> set (statements lines) \<Longrightarrow> strip l = l \<and> l \<noteq> []"
  by (auto simp: statements_def strip_idem)

lemma emit_define_ok:
  assumes "trampoline_ok p"
  shows "snd (emit_define (stmt_of p)) = None"
  using assms
  by (auto simp: trampoline_ok_def stmt_of_parsable emit_define_def Let_def split: list.splits)

lemma process_loop_Cons:
  assumes "strip l = l" and "l \<noteq> []" and "\<not> unparsable l"
  shows "process_loop mode prefix (l # ls) =
     (case emit mode prefix (stmt_of l) of
        (t, Some e) \<Rightarrow> (t, Some e)
      | (t, None) \<Rightarrow>
          (t @ fst (process_loop mode prefix ls), snd (process_loop mode prefix ls)))"
proof -
  from assms(3) have "parse_stmt l = Inr (stmt_of l)"
    by (cases "parse_stmt l") (simp_all add: stmt_of_def parse_fails_iff [symmetric])
  then show ?thesis using assms(1,2)
    by (simp add: split: prod.splits option.splits)
qed

lemma process_loop_append:
  assumes "\<forall>p\<in>set pre. strip p = p \<and> p \<noteq> [] \<and> trampoline_ok p"
  shows "process_loop VfsDefine prefix (pre @ rest) =
     (concat (map (\<lambda>p. fst (emit_define (stmt_of p))) pre)
      @ fst (process_loop VfsDefine prefix rest),
      snd (process_loop VfsDefine prefix rest))"
  using assms
proof (induction pre)
  case Nil
  then show ?case by simp
next
  case (Cons p pre)
  then have p: "strip p = p" "p \<noteq> []" "trampoline_ok p" by simp_all
  then have np: "\<not> unparsable p" by (simp add: trampoline_ok_def)
  obtain t where t: "emit_define (stmt_of p) = (t, None)"
    using emit_define_ok [OF p(3)] by (cases "emit_define (stmt_of p)") simp
  have "process_loop VfsDefine prefix (p # (pre @ rest)) =
      (t @ fst (process_loop VfsDefine prefix (pre @ rest)),
       snd (process_loop VfsDefine prefix (pre @ rest)))"
    using process_loop_Cons [OF p(1,2) np, of VfsDefine prefix "pre @ rest"] t by simp
  then show ?case using Cons t by simp
qed

lemma process_loop_statements:
  "process_loop mode prefix lines = process_loop mode prefix (statements lines)"
proof (induction lines)
  case Nil
  then show ?case by (simp add: statements_def)
next
  case (Cons l ls)
  have "statements (l # ls) = (if strip l = [] then statements ls else strip l # statements ls)"
    by (simp add: statements_def)
  then show ?case using Cons
    by (simp add: strip_idem split: sum.split prod.split option.split)
qed

lemma process_define_loop:
  "process lines VfsDefine prefix qual =
     (header @ fst (process_loop VfsDefine prefix lines),
      snd (process_loop VfsDefine prefix lines))"
proof (cases "process_loop VfsDefine prefix lines")
  case (Pair t r)
  then show ?thesis by (cases r) (simp_all add: process_def)
qed

lemma process_loop_split:
  assumes "statements lines = pre @ l # post"
    and "\<forall>p\<in>set pre. trampoline_ok p"
    and "\<not> unparsable l"
  shows "process_loop VfsDefine prefix lines =
     (concat (map (\<lambda>p. fst (emit_define (stmt_of p))) pre)
      @ fst (process_loop VfsDefine prefix (l # post)),
      snd (process_loop VfsDefine prefix (l # post)))"
proof -
  have all: "\<forall>x\<in>set (pre @ l # post). strip x = x \<and> x \<noteq> []"
    using statements_stripped [of _ lines] assms(1) by simp
  then have pre: "\<forall>p\<in>set pre. strip p = p \<and> p \<noteq> [] \<and> trampoline_ok p"
    using assms(2) by simp
  have "process_loop VfsDefine prefix lines = process_loop VfsDefine prefix (pre @ l # post)"
    using process_loop_statements [of VfsDefine prefix lines] assms(1) by simp
  then show ?thesis
    using process_loop_append [OF pre, of prefix "l # post"] by simp
qed

lemma process_define_split_ok:
  assumes "statements lines = pre @ l # post"
    and "\<forall>p\<in>set pre. trampoline_ok p"
    and "\<not> unparsable l"
    and "emit_define (stmt_of l) = (t, None)"
  shows "process lines VfsDefine prefix qual =
     (header @ concat (map (\<lambda>p. fst (emit_define (stmt_of p))) pre) @ t
      @ fst (process_loop VfsDefine prefix post),
      snd (process_loop VfsDefine prefix post))"
proof -
  have "strip l = l" "l \<noteq> []"
    using statements_stripped [of l lines] assms(1) by simp_all
  then have "process_loop VfsDefine prefix (l # post) =
      (t @ fst (process_loop VfsDefine prefix post), snd (process_loop VfsDefine prefix post))"
    using process_loop_Cons [OF _ _ assms(3), of VfsDefine prefix post] assms(4) by simp
  then show ?thesis
    using process_loop_split [OF assms(1,2,3), of prefix]
    by (simp add: process_define_loop)
qed

lemma process_define_split_error:
  assumes "statements lines = pre @ l # post"
    and "\<forall>p\<in>set pre. trampoline_ok p"
    and "\<not> unparsable l"
    and "emit_define (stmt_of l) = (t, Some e)"
  shows "process lines VfsDefine prefix qual =
     (header @ concat (map (\<lambda>p. fst (emit_define (stmt_of p))) pre) @ t, Some e)"
proof -
  have "strip l = l" "l \<noteq> []"
    using statements_stripped [of l lines] assms(1) by simp_all
  then have "process_loop VfsDefine prefix (l # post) = (t, Some e)"
    using process_loop_Cons [OF _ _ assms(3), of VfsDefine prefix post] assms(4) by simp
  then show ?thesis
    using process_loop_split [OF assms(1,2,3), of prefix]
    by (simp add: process_define_loop)
qed

lemma no_path_info_recorded:
  "\<forall>a\<in>set as. re_path_info_search a = None \<Longrightarrow> collect_path_info as = []"
  by (induction as) (simp_all add: collect_path_info_def List.map_filter_simps)

lemma process_all_parsable:
  assumes "mode \<noteq> VfsDefine" and "\<forall>l\<in>set (statements lines). \<not> unparsable l"
  shows "process_loop mode prefix lines =
     (concat (map (\<lambda>l. fst (emit mode prefix (stmt_of l))) (statements lines)), None)"
  using process_good [OF assms(1), of lines prefix] assms(2)
  by (simp add: parse_fails_iff)

lemma prototype_line_emit:
  "\<not> unparsable l \<Longrightarrow> fst (emit VfsPrototype prefix (stmt_of l)) = prototype_line prefix l"
  by (simp add: stmt_of_parsable prototype_line_def)

lemma process_decl_parsable:
  assumes "\<forall>l\<in>set (statements lines). \<not> unparsable l"
  shows "process lines VfsStructDecl prefix qual =
     (header @ print ''struct wasi_vfs_ops {''
      @ concat (map member_line (statements lines)) @ print ''};'', None)"
proof -
  have "map (\<lambda>l. fst (emit VfsStructDecl prefix (stmt_of l))) (statements lines)
        = map member_line (statements lines)"
    using assms by (intro map_cong) (simp_all add: member_line_emit del: emit.simps)
  then have "concat (map (\<lambda>l. fst (emit VfsStructDecl prefix (stmt_of l))) (statements lines))
        = concat (map member_line (statements lines))"
    by (rule arg_cong)
  then show ?thesis
    using process_all_parsable [OF _ assms, of VfsStructDecl prefix]
    by (simp add: process_def del: emit.simps)
qed

lemma process_proto_parsable:
  assumes "\<forall>l\<in>set (statements lines). \<not> unparsable l"
  shows "process lines VfsPrototype prefix qual =
     (header @ concat (map (prototype_line prefix) (statements lines)), None)"
proof -
  have "map (\<lambda>l. fst (emit VfsPrototype prefix (stmt_of l))) (statements lines)
        = map (prototype_line prefix) (statements lines)"
    using assms by (intro map_cong) (simp_all add: prototype_line_emit del: emit.simps)
  then have "concat (map (\<lambda>l. fst (emit VfsPrototype prefix (stmt_of l))) (statements lines))
        = concat (map (prototype_line prefix) (statements lines))"
    by (rule arg_cong)
  then show ?thesis
    using process_all_parsable [OF _ assms, of VfsPrototype prefix]
    by (simp add: process_def del: emit.simps)
qed

lemma main_all_parsable:
  assumes "read_text fs filename = Inr content"
    and "\<forall>l\<in>set (statements (lines_of content)). \<not> unparsable l"
  shows "main fs =
     (snd (process (lines_of content) VfsDefine default_prefix default_qual),
      fs(''wasi_vfs_ops.h'' \<mapsto>
           Text (header @ print ''struct wasi_vfs_ops {''
                 @ concat (map member_line (statements (lines_of content))) @ print ''};''),
         ''wasi_vfs.h'' \<mapsto>
           Text (header
                 @ concat (map (prototype_line default_prefix) (statements (lines_of content)))),
         ''wasi_vfs_dispatch.h'' \<mapsto>
           Text (fst (process (lines_of content) VfsDefine default_prefix default_qual))))"
  using assms(1)
  by (simp add: main_def write_all_def process_decl_parsable [OF assms(2)]
        process_proto_parsable [OF assms(2)] split: prod.splits)

text \<open>
  C3. Let \<open>l\<close> be a statement of the input that parses and whose name does not start
  with \<^verbatim>\<open>path_\<close>, and let a whole trampoline be printed for every statement before
  it. Then mode \<open>VfsDefine\<close> writes, after the header and the trampolines of the
  statements before \<open>l\<close>, the trampoline of \<open>l\<close>: the signature line with the
  argument texts, the opening brace, the lookup, which is the fixed text
  \<^verbatim>\<open>fdinfo_vfs_ops(fdinfo)\<close> whatever the arguments are, the forwarding call
  \<^verbatim>\<open>return ops->name(identifiers);\<close> and the closing brace. No guard is between the
  brace and the lookup. What follows is what the loop writes for the statements after
  \<open>l\<close>. When the statements after \<open>l\<close> parse too, the run leaves this text in
  \<^verbatim>\<open>wasi_vfs_dispatch.h\<close>.
\<close>

theorem fd_dispatch_body:
  assumes "statements lines = pre @ l # post"
    and "\<forall>p\<in>set pre. trampoline_ok p"
    and "\<not> unparsable l"
    and "\<not> startswith (name_of l) ''path_''"
  shows "process lines VfsDefine prefix qual =
    (header
     @ concat (map (\<lambda>p. fst (emit_define (stmt_of p))) pre)
     @ print (''int\<newline>wasi_vfs_'' @ name_of l @ ''(''
              @ join '', '' (map strip (fragments l)) @ '')'')
     @ print ''{''
     @ print (CHR 0x09 # ''const struct wasi_vfs_ops *ops = fdinfo_vfs_ops(fdinfo);'')
     @ print (CHR 0x09 # ''return ops->'' @ name_of l @ ''(''
              @ join '', '' (map identifier_of (fragments l)) @ '');'')
     @ print ''}''
     @ fst (process_loop VfsDefine prefix post),
     snd (process_loop VfsDefine prefix post))
   \<and> (read_text fs filename = Inr content \<and> lines = lines_of content
        \<and> (\<forall>p\<in>set post. \<not> unparsable p) \<longrightarrow>
        snd (main fs) ''wasi_vfs_dispatch.h'' =
          Some (Text (fst (process lines VfsDefine default_prefix default_qual))))"
proof (intro conjI impI)
  have "emit_define (stmt_of l) =
    (print (''int\<newline>wasi_vfs_'' @ name_of l @ ''(''
              @ join '', '' (map strip (fragments l)) @ '')'')
     @ print ''{''
     @ print (CHR 0x09 # ''const struct wasi_vfs_ops *ops = fdinfo_vfs_ops(fdinfo);'')
     @ print (CHR 0x09 # ''return ops->'' @ name_of l @ ''(''
              @ join '', '' (map identifier_of (fragments l)) @ '');'')
     @ print ''}'', None)"
    using assms(4) by (simp add: stmt_of_parsable [OF assms(3)] emit_define_def)
  from process_define_split_ok [OF assms(1,2,3) this, of prefix qual]
  show "process lines VfsDefine prefix qual =
    (header
     @ concat (map (\<lambda>p. fst (emit_define (stmt_of p))) pre)
     @ print (''int\<newline>wasi_vfs_'' @ name_of l @ ''(''
              @ join '', '' (map strip (fragments l)) @ '')'')
     @ print ''{''
     @ print (CHR 0x09 # ''const struct wasi_vfs_ops *ops = fdinfo_vfs_ops(fdinfo);'')
     @ print (CHR 0x09 # ''return ops->'' @ name_of l @ ''(''
              @ join '', '' (map identifier_of (fragments l)) @ '');'')
     @ print ''}''
     @ fst (process_loop VfsDefine prefix post),
     snd (process_loop VfsDefine prefix post))"
    by simp
next
  assume h: "read_text fs filename = Inr content \<and> lines = lines_of content
        \<and> (\<forall>p\<in>set post. \<not> unparsable p)"
  then have allp: "\<forall>x\<in>set (statements (lines_of content)). \<not> unparsable x"
    using assms(1,2,3) by (auto simp: trampoline_ok_def)
  from h have r: "read_text fs filename = Inr content" by simp
  show "snd (main fs) ''wasi_vfs_dispatch.h'' =
          Some (Text (fst (process lines VfsDefine default_prefix default_qual)))"
    using main_all_parsable [OF r allp] h by simp
qed

text \<open>
  C10. Let the definition file be read, let every statement of it parse, let \<open>l\<close> be
  a statement whose name starts with \<^verbatim>\<open>path_\<close> and in none of whose argument
  fragments line 48 finds the path-info pattern, and let a whole trampoline be printed
  for every statement before \<open>l\<close>. Then mode \<open>VfsDefine\<close> writes the header, the
  trampolines before \<open>l\<close>, the signature line of \<open>l\<close> and the opening brace, and
  raises the \<open>IndexError\<close> of line 66: no lookup, no call and no closing brace are
  written for \<open>l\<close>. The modes \<open>VfsStructDecl\<close> and \<open>VfsPrototype\<close> write their line
  for every statement, \<open>l\<close> among them, and raise nothing. The run ends with the
  \<open>IndexError\<close>, and \<^verbatim>\<open>wasi_vfs_dispatch.h\<close> is left with the text up to the brace.
\<close>

theorem path_without_path_info_fails:
  assumes "read_text fs filename = Inr content"
    and "statements (lines_of content) = pre @ l # post"
    and "\<forall>p\<in>set pre. trampoline_ok p"
    and "\<not> unparsable l"
    and "startswith (name_of l) ''path_''"
    and "\<forall>a\<in>set (fragments l). re_path_info_search a = None"
    and "\<forall>p\<in>set post. \<not> unparsable p"
  shows "process (lines_of content) VfsDefine prefix qual =
           (header
            @ concat (map (\<lambda>p. fst (emit_define (stmt_of p))) pre)
            @ print (''int\<newline>wasi_vfs_'' @ name_of l @ ''(''
                     @ join '', '' (map strip (fragments l)) @ '')'')
            @ print ''{'', Some IndexError)
       \<and> process (lines_of content) VfsStructDecl prefix qual =
           (header @ print ''struct wasi_vfs_ops {''
            @ concat (map member_line (pre @ l # post)) @ print ''};'', None)
       \<and> process (lines_of content) VfsPrototype prefix qual =
           (header @ concat (map (prototype_line prefix) (pre @ l # post)), None)
       \<and> fst (main fs) = Some IndexError
       \<and> snd (main fs) ''wasi_vfs_dispatch.h'' =
           Some (Text (header
                       @ concat (map (\<lambda>p. fst (emit_define (stmt_of p))) pre)
                       @ print (''int\<newline>wasi_vfs_'' @ name_of l @ ''(''
                                @ join '', '' (map strip (fragments l)) @ '')'')
                       @ print ''{''))"
proof -
  have e: "emit_define (stmt_of l) =
      (print (''int\<newline>wasi_vfs_'' @ name_of l @ ''(''
              @ join '', '' (map strip (fragments l)) @ '')'')
       @ print ''{'', Some IndexError)"
    using assms(5) no_path_info_recorded [OF assms(6)]
    by (simp add: stmt_of_parsable [OF assms(4)] emit_define_def)
  have d: "\<And>prefix qual. process (lines_of content) VfsDefine prefix qual =
           (header
            @ concat (map (\<lambda>p. fst (emit_define (stmt_of p))) pre)
            @ print (''int\<newline>wasi_vfs_'' @ name_of l @ ''(''
                     @ join '', '' (map strip (fragments l)) @ '')'')
            @ print ''{'', Some IndexError)"
    using process_define_split_error [OF assms(2,3,4) e] by simp
  have allp: "\<forall>x\<in>set (statements (lines_of content)). \<not> unparsable x"
    using assms(2,3,4,7) by (auto simp: trampoline_ok_def)
  show ?thesis
    using d process_decl_parsable [OF allp, of prefix qual]
      process_proto_parsable [OF allp, of prefix qual]
      main_all_parsable [OF assms(1) allp] assms(2)
    by simp
qed

lemma mixed_ops_facts:
  "statements (lines_of mixed_ops) =
     [''path_link(struct path_info *old, struct path_info *new)'']
     @ ''close(struct path_info *fdinfo)'' # [''sync(int fd)'']"
  "trampoline_ok ''path_link(struct path_info *old, struct path_info *new)''"
  "\<not> unparsable ''close(struct path_info *fdinfo)''"
  "\<not> startswith (name_of ''close(struct path_info *fdinfo)'') ''path_''"
  by code_simp+

lemma mixed_ops_texts:
  "emit_define (stmt_of ''path_link(struct path_info *old, struct path_info *new)'') =
     (''int\<newline>wasi_vfs_path_link(struct path_info *old, struct path_info *new)\<newline>{\<newline>''
      @ [CHR 0x09] @ ''if (check_xdev(old, new)) {\<newline>''
      @ [CHR 0x09, CHR 0x09] @ ''return EXDEV;\<newline>''
      @ [CHR 0x09] @ ''}\<newline>''
      @ [CHR 0x09] @ ''const struct wasi_vfs_ops *ops = path_vfs_ops(old);\<newline>''
      @ [CHR 0x09] @ ''return ops->path_link(old, new);\<newline>''
      @ ''}\<newline>'', None)"
  "name_of ''close(struct path_info *fdinfo)'' = ''close''"
  "fragments ''close(struct path_info *fdinfo)'' = [''struct path_info *fdinfo'']"
  "strip ''struct path_info *fdinfo'' = ''struct path_info *fdinfo''"
  "identifier_of ''struct path_info *fdinfo'' = ''fdinfo''"
  "process_loop VfsDefine ''wasi_vfs_'' [''sync(int fd)''] =
     (''int\<newline>wasi_vfs_sync(int fd)\<newline>{\<newline>''
      @ [CHR 0x09] @ ''const struct wasi_vfs_ops *ops = fdinfo_vfs_ops(fdinfo);\<newline>''
      @ [CHR 0x09] @ ''return ops->sync(fd);\<newline>''
      @ ''}\<newline>'', None)"
  by code_simp+

lemma mixed_ops_run:
  "read_text [filename \<mapsto> Text mixed_ops] filename = Inr mixed_ops"
  "\<not> unparsable ''sync(int fd)''"
  by code_simp+

theorem fd_dispatch_body_witness:
  "statements (lines_of mixed_ops) =
     [''path_link(struct path_info *old, struct path_info *new)'']
     @ ''close(struct path_info *fdinfo)'' # [''sync(int fd)'']
   \<and> trampoline_ok ''path_link(struct path_info *old, struct path_info *new)''
   \<and> \<not> unparsable ''close(struct path_info *fdinfo)''
   \<and> \<not> startswith (name_of ''close(struct path_info *fdinfo)'') ''path_''
   \<and> read_text [filename \<mapsto> Text mixed_ops] filename = Inr mixed_ops
   \<and> \<not> unparsable ''sync(int fd)''
   \<and> process (lines_of mixed_ops) VfsDefine ''wasi_vfs_'' ''static const'' =
       (''/* this file is generated by genvfs.sh */\<newline>#include ''
        @ [CHR 0x22] @ ''wasi_vfs_types.h'' @ [CHR 0x22] @ ''\<newline>''
        @ ''int\<newline>wasi_vfs_path_link(struct path_info *old, struct path_info *new)\<newline>{\<newline>''
        @ [CHR 0x09] @ ''if (check_xdev(old, new)) {\<newline>''
        @ [CHR 0x09, CHR 0x09] @ ''return EXDEV;\<newline>''
        @ [CHR 0x09] @ ''}\<newline>''
        @ [CHR 0x09] @ ''const struct wasi_vfs_ops *ops = path_vfs_ops(old);\<newline>''
        @ [CHR 0x09] @ ''return ops->path_link(old, new);\<newline>''
        @ ''}\<newline>''
        @ ''int\<newline>wasi_vfs_close(struct path_info *fdinfo)\<newline>{\<newline>''
        @ [CHR 0x09] @ ''const struct wasi_vfs_ops *ops = fdinfo_vfs_ops(fdinfo);\<newline>''
        @ [CHR 0x09] @ ''return ops->close(fdinfo);\<newline>''
        @ ''}\<newline>''
        @ ''int\<newline>wasi_vfs_sync(int fd)\<newline>{\<newline>''
        @ [CHR 0x09] @ ''const struct wasi_vfs_ops *ops = fdinfo_vfs_ops(fdinfo);\<newline>''
        @ [CHR 0x09] @ ''return ops->sync(fd);\<newline>''
        @ ''}\<newline>'', None)
   \<and> snd (main [filename \<mapsto> Text mixed_ops]) ''wasi_vfs_dispatch.h'' =
       Some (Text (''/* this file is generated by genvfs.sh */\<newline>#include ''
        @ [CHR 0x22] @ ''wasi_vfs_types.h'' @ [CHR 0x22] @ ''\<newline>''
        @ ''int\<newline>wasi_vfs_path_link(struct path_info *old, struct path_info *new)\<newline>{\<newline>''
        @ [CHR 0x09] @ ''if (check_xdev(old, new)) {\<newline>''
        @ [CHR 0x09, CHR 0x09] @ ''return EXDEV;\<newline>''
        @ [CHR 0x09] @ ''}\<newline>''
        @ [CHR 0x09] @ ''const struct wasi_vfs_ops *ops = path_vfs_ops(old);\<newline>''
        @ [CHR 0x09] @ ''return ops->path_link(old, new);\<newline>''
        @ ''}\<newline>''
        @ ''int\<newline>wasi_vfs_close(struct path_info *fdinfo)\<newline>{\<newline>''
        @ [CHR 0x09] @ ''const struct wasi_vfs_ops *ops = fdinfo_vfs_ops(fdinfo);\<newline>''
        @ [CHR 0x09] @ ''return ops->close(fdinfo);\<newline>''
        @ ''}\<newline>''
        @ ''int\<newline>wasi_vfs_sync(int fd)\<newline>{\<newline>''
        @ [CHR 0x09] @ ''const struct wasi_vfs_ops *ops = fdinfo_vfs_ops(fdinfo);\<newline>''
        @ [CHR 0x09] @ ''return ops->sync(fd);\<newline>''
        @ ''}\<newline>''))"
  using fd_dispatch_body
          [of "lines_of mixed_ops"
              "[''path_link(struct path_info *old, struct path_info *new)'']"
              "''close(struct path_info *fdinfo)''" "[''sync(int fd)'']"
              "''wasi_vfs_''" "''static const''"
              "[filename \<mapsto> Text mixed_ops]" mixed_ops]
        mixed_ops_facts mixed_ops_texts mixed_ops_run
  by (simp add: print_def header_def default_prefix_def default_qual_def)

lemma path_without_info_facts:
  "read_text [filename \<mapsto> Text path_without_info] filename = Inr path_without_info"
  "statements (lines_of path_without_info) =
     [''close(struct path_info *fdinfo)''] @ ''path_sync(int fd)'' # [''sync(int fd)'']"
  "trampoline_ok ''close(struct path_info *fdinfo)''"
  "\<not> unparsable ''path_sync(int fd)''"
  "startswith (name_of ''path_sync(int fd)'') ''path_''"
  "fragments ''path_sync(int fd)'' = [''int fd'']"
  "re_path_info_search ''int fd'' = None"
  "\<not> unparsable ''sync(int fd)''"
  by code_simp+

lemma path_without_info_texts:
  "emit_define (stmt_of ''close(struct path_info *fdinfo)'') =
     (''int\<newline>wasi_vfs_close(struct path_info *fdinfo)\<newline>{\<newline>''
      @ [CHR 0x09] @ ''const struct wasi_vfs_ops *ops = fdinfo_vfs_ops(fdinfo);\<newline>''
      @ [CHR 0x09] @ ''return ops->close(fdinfo);\<newline>''
      @ ''}\<newline>'', None)"
  "name_of ''path_sync(int fd)'' = ''path_sync''"
  "strip ''int fd'' = ''int fd''"
  "member_line ''close(struct path_info *fdinfo)'' =
     [CHR 0x09] @ ''int (*close)(struct path_info *fdinfo);\<newline>''"
  "member_line ''path_sync(int fd)'' = [CHR 0x09] @ ''int (*path_sync)(int fd);\<newline>''"
  "member_line ''sync(int fd)'' = [CHR 0x09] @ ''int (*sync)(int fd);\<newline>''"
  "prototype_line ''wasi_vfs_'' ''close(struct path_info *fdinfo)'' =
     ''int wasi_vfs_close(struct path_info *fdinfo);\<newline>''"
  "prototype_line ''wasi_vfs_'' ''path_sync(int fd)'' = ''int wasi_vfs_path_sync(int fd);\<newline>''"
  "prototype_line ''wasi_vfs_'' ''sync(int fd)'' = ''int wasi_vfs_sync(int fd);\<newline>''"
  by code_simp+

theorem path_without_path_info_fails_witness:
  "read_text [filename \<mapsto> Text path_without_info] filename = Inr path_without_info
   \<and> statements (lines_of path_without_info) =
       [''close(struct path_info *fdinfo)''] @ ''path_sync(int fd)'' # [''sync(int fd)'']
   \<and> trampoline_ok ''close(struct path_info *fdinfo)''
   \<and> \<not> unparsable ''path_sync(int fd)''
   \<and> startswith (name_of ''path_sync(int fd)'') ''path_''
   \<and> fragments ''path_sync(int fd)'' = [''int fd'']
   \<and> re_path_info_search ''int fd'' = None
   \<and> \<not> unparsable ''sync(int fd)''
   \<and> process (lines_of path_without_info) VfsDefine ''wasi_vfs_'' ''static const'' =
       (''/* this file is generated by genvfs.sh */\<newline>#include ''
        @ [CHR 0x22] @ ''wasi_vfs_types.h'' @ [CHR 0x22] @ ''\<newline>''
        @ ''int\<newline>wasi_vfs_close(struct path_info *fdinfo)\<newline>{\<newline>''
        @ [CHR 0x09] @ ''const struct wasi_vfs_ops *ops = fdinfo_vfs_ops(fdinfo);\<newline>''
        @ [CHR 0x09] @ ''return ops->close(fdinfo);\<newline>''
        @ ''}\<newline>''
        @ ''int\<newline>wasi_vfs_path_sync(int fd)\<newline>{\<newline>'', Some IndexError)
   \<and> process (lines_of path_without_info) VfsStructDecl ''wasi_vfs_'' ''static const'' =
       (''/* this file is generated by genvfs.sh */\<newline>#include ''
        @ [CHR 0x22] @ ''wasi_vfs_types.h'' @ [CHR 0x22] @ ''\<newline>''
        @ ''struct wasi_vfs_ops {\<newline>''
        @ [CHR 0x09] @ ''int (*close)(struct path_info *fdinfo);\<newline>''
        @ [CHR 0x09] @ ''int (*path_sync)(int fd);\<newline>''
        @ [CHR 0x09] @ ''int (*sync)(int fd);\<newline>''
        @ ''};\<newline>'', None)
   \<and> process (lines_of path_without_info) VfsPrototype ''wasi_vfs_'' ''static const'' =
       (''/* this file is generated by genvfs.sh */\<newline>#include ''
        @ [CHR 0x22] @ ''wasi_vfs_types.h'' @ [CHR 0x22] @ ''\<newline>''
        @ ''int wasi_vfs_close(struct path_info *fdinfo);\<newline>''
        @ ''int wasi_vfs_path_sync(int fd);\<newline>''
        @ ''int wasi_vfs_sync(int fd);\<newline>'', None)
   \<and> fst (main [filename \<mapsto> Text path_without_info]) = Some IndexError"
  using path_without_path_info_fails
          [of "[filename \<mapsto> Text path_without_info]" path_without_info
              "[''close(struct path_info *fdinfo)'']" "''path_sync(int fd)''"
              "[''sync(int fd)'']" "''wasi_vfs_''" "''static const''"]
        path_without_info_facts path_without_info_texts
  by (simp add: print_def header_def)

text \<open>
  A fragment in which line 48 finds the pattern also matches it when stripped, so a
  statement that declares no path-info argument has none recorded.
\<close>

lemma name_char_not_space: "is_name_char c \<Longrightarrow> \<not> isspace c"
  by (auto simp: is_name_char_def isspace_def)

lemma strip_snoc_space:
  assumes "isspace w"
  shows "strip (x @ [w]) = strip x"
proof (cases "\<forall>c\<in>set x. isspace c")
  case True
  then have "dropWhile isspace (x @ [w]) = []" "dropWhile isspace x = []"
    using assms by simp_all
  then show ?thesis by (simp add: strip_def del: dropWhile_eq_Nil_conv)
next
  case False
  then have "dropWhile isspace (x @ [w]) = dropWhile isspace x @ [w]"
    by (auto simp: dropWhile_append)
  then show ?thesis using assms by (simp add: strip_def)
qed

lemma recorded_is_declared:
  assumes "re_path_info_search a = Some n"
  shows "re_path_info_search (strip a) = Some n"
proof -
  from re_path_info_search_Some [OF assms] obtain pre where n: "is_name n"
    and a: "a = pre @ ''struct path_info *'' @ n \<or> a = pre @ ''struct path_info *'' @ n @ ''\<newline>''"
    by blast
  let ?b = "pre @ ''struct path_info *'' @ n"
  have n0: "n \<noteq> []" using n by (auto simp: is_name_def)
  have "list_all is_name_char n" using n by (rule is_name_chars)
  with n0 have "is_name_char (last n)" by (simp add: list_all_iff)
  then have "\<not> isspace (last n)" by (rule name_char_not_space)
  moreover have "last ?b = last n" using n0 by simp
  ultimately have "?b = [] \<or> \<not> isspace (last ?b)" by simp
  then have b: "re_path_info_search (strip ?b) = Some n"
    using recorded_when_no_trailing_space [of ?b] re_path_info_search_declared [OF n, of pre]
    by simp
  from a show ?thesis
  proof
    assume "a = ?b"
    with b show ?thesis by simp
  next
    assume "a = pre @ ''struct path_info *'' @ n @ ''\<newline>''"
    then have "a = ?b @ [CHR 0x0A]" by simp
    moreover have "isspace CHR 0x0A" by (simp add: isspace_def)
    ultimately have "strip a = strip ?b" by (simp only: strip_snoc_space)
    with b show ?thesis by simp
  qed
qed

lemma not_declared_not_recorded:
  "re_path_info_search (strip a) = None \<Longrightarrow> re_path_info_search a = None"
  using recorded_is_declared [of a] by (cases "re_path_info_search a") auto

subsection \<open>The argument texts\<close>

lemma args_reparse_parsable:
  assumes "\<not> unparsable l"
  shows "map strip (split_on CHR '','' (join '', '' (map strip (fragments l))))
         = map strip (fragments l)"
  using args_sig_reparse [OF parse_stmt_parsable [OF assms]] by simp

text \<open>
  C4, as amended. When every statement of the input parses, mode \<open>VfsStructDecl\<close>
  writes one member line and mode \<open>VfsPrototype\<close> one prototype line for each
  statement, in the order of the input, and the argument list of both lines is the list
  of the statement's argument texts joined by a comma and a space. The pieces of the
  input are those of the content without its line feeds; a statement reads
  \<^verbatim>\<open>name(a)\<close> followed by ignored text, and its argument texts are the pieces of
  \<open>a\<close> between its commas, in order, each without the whitespace around it.
  Splitting the printed list at the commas and stripping the pieces gives the same
  texts back. So the text of an argument is kept up to the line feeds in it and the
  whitespace around it, not byte for byte.
\<close>

theorem stripped_args_emitted:
  assumes "\<forall>l\<in>set (statements (lines_of content)). \<not> unparsable l"
  shows "process (lines_of content) VfsStructDecl prefix qual =
           (header
            @ print ''struct wasi_vfs_ops {''
            @ concat (map (\<lambda>l. print (CHR 0x09 # ''int (*'' @ name_of l @ '')(''
                                        @ join '', '' (map strip (fragments l)) @ '');''))
                        (statements (lines_of content)))
            @ print ''};'', None)
       \<and> process (lines_of content) VfsPrototype prefix qual =
           (header
            @ concat (map (\<lambda>l. print (''int '' @ prefix @ name_of l @ ''(''
                                        @ join '', '' (map strip (fragments l)) @ '');''))
                        (statements (lines_of content))), None)
       \<and> join '';'' (lines_of content) = filter (\<lambda>c. c \<noteq> CHR 0x0A) content
       \<and> (\<forall>l\<in>set (statements (lines_of content)).
             (\<exists>t. l = name_of l @ ''('' @ args_of l @ '')'' @ t)
             \<and> fragments l = split_on CHR '','' (args_of l)
             \<and> map strip (split_on CHR '','' (join '', '' (map strip (fragments l))))
                 = map strip (fragments l))"
proof -
  have m: "member_line = (\<lambda>l. print (CHR 0x09 # ''int (*'' @ name_of l @ '')(''
                                        @ join '', '' (map strip (fragments l)) @ '');''))"
    by (rule ext) (simp add: member_line_def)
  have p: "prototype_line prefix = (\<lambda>l. print (''int '' @ prefix @ name_of l @ ''(''
                                        @ join '', '' (map strip (fragments l)) @ '');''))"
    by (rule ext) (simp add: prototype_line_def)
  have a: "process (lines_of content) VfsStructDecl prefix qual =
           (header
            @ print ''struct wasi_vfs_ops {''
            @ concat (map (\<lambda>l. print (CHR 0x09 # ''int (*'' @ name_of l @ '')(''
                                        @ join '', '' (map strip (fragments l)) @ '');''))
                        (statements (lines_of content)))
            @ print ''};'', None)"
    using process_decl_parsable [OF assms, of prefix qual] unfolding m .
  have b: "process (lines_of content) VfsPrototype prefix qual =
           (header
            @ concat (map (\<lambda>l. print (''int '' @ prefix @ name_of l @ ''(''
                                        @ join '', '' (map strip (fragments l)) @ '');''))
                        (statements (lines_of content))), None)"
    using process_proto_parsable [OF assms, of prefix qual] unfolding p .
  have c: "join '';'' (lines_of content) = filter (\<lambda>c. c \<noteq> CHR 0x0A) content"
    unfolding lines_of_def by (rule join_split_on)
  have d: "\<forall>l\<in>set (statements (lines_of content)).
             (\<exists>t. l = name_of l @ ''('' @ args_of l @ '')'' @ t)
             \<and> fragments l = split_on CHR '','' (args_of l)
             \<and> map strip (split_on CHR '','' (join '', '' (map strip (fragments l))))
                 = map strip (fragments l)"
  proof
    fix l assume "l \<in> set (statements (lines_of content))"
    with assms have np: "\<not> unparsable l" by blast
    show "(\<exists>t. l = name_of l @ ''('' @ args_of l @ '')'' @ t)
             \<and> fragments l = split_on CHR '','' (args_of l)
             \<and> map strip (split_on CHR '','' (join '', '' (map strip (fragments l))))
                 = map strip (fragments l)"
      using parsable_text [OF np] args_reparse_parsable [OF np]
      by (simp add: fragments_def)
  qed
  from a b c d show ?thesis by blast
qed

lemma two_ops_facts:
  "statements (lines_of two_ops) =
     [''close(struct path_info *fdinfo)'',
      ''path_link(struct path_info *old,          struct path_info *new)'']"
  "\<not> unparsable ''close(struct path_info *fdinfo)''"
  "\<not> unparsable ''path_link(struct path_info *old,          struct path_info *new)''"
  "name_of ''close(struct path_info *fdinfo)'' = ''close''"
  "name_of ''path_link(struct path_info *old,          struct path_info *new)'' = ''path_link''"
  "map strip (fragments ''close(struct path_info *fdinfo)'') = [''struct path_info *fdinfo'']"
  "map strip (fragments ''path_link(struct path_info *old,          struct path_info *new)'')
     = [''struct path_info *old'', ''struct path_info *new'']"
  "filter (\<lambda>c. c \<noteq> CHR 0x0A) two_ops =
     ''close(struct path_info *fdinfo);path_link(struct path_info *old,          struct path_info *new);''"
  by code_simp+

theorem stripped_args_emitted_witness:
  "statements (lines_of two_ops) =
     [''close(struct path_info *fdinfo)'',
      ''path_link(struct path_info *old,          struct path_info *new)'']
   \<and> \<not> unparsable ''close(struct path_info *fdinfo)''
   \<and> \<not> unparsable ''path_link(struct path_info *old,          struct path_info *new)''
   \<and> process (lines_of two_ops) VfsStructDecl ''wasi_vfs_'' ''static const'' =
       (''/* this file is generated by genvfs.sh */\<newline>#include ''
        @ [CHR 0x22] @ ''wasi_vfs_types.h'' @ [CHR 0x22] @ ''\<newline>''
        @ ''struct wasi_vfs_ops {\<newline>''
        @ [CHR 0x09] @ ''int (*close)(struct path_info *fdinfo);\<newline>''
        @ [CHR 0x09] @ ''int (*path_link)(struct path_info *old, struct path_info *new);\<newline>''
        @ ''};\<newline>'', None)
   \<and> process (lines_of two_ops) VfsPrototype ''wasi_vfs_'' ''static const'' =
       (''/* this file is generated by genvfs.sh */\<newline>#include ''
        @ [CHR 0x22] @ ''wasi_vfs_types.h'' @ [CHR 0x22] @ ''\<newline>''
        @ ''int wasi_vfs_close(struct path_info *fdinfo);\<newline>''
        @ ''int wasi_vfs_path_link(struct path_info *old, struct path_info *new);\<newline>'', None)
   \<and> join '';'' (lines_of two_ops) =
       ''close(struct path_info *fdinfo);path_link(struct path_info *old,          struct path_info *new);''
   \<and> map strip (split_on CHR '','' ''struct path_info *old, struct path_info *new'') =
       [''struct path_info *old'', ''struct path_info *new'']"
  using stripped_args_emitted [of two_ops "''wasi_vfs_''" "''static const''"]
        two_ops_facts
  by (simp add: print_def header_def)

text \<open>
  The claim as stated fails. The argument \<^verbatim>\<open>int\<close>, line feed, \<^verbatim>\<open>fd\<close> is printed as
  \<^verbatim>\<open>intfd\<close>, and the argument block \<^verbatim>\<open> int  a ,int b \<close> is printed as
  \<^verbatim>\<open>int  a, int b\<close>.
\<close>

theorem argument_text_not_verbatim:
  "snd (main [filename \<mapsto> Text ''f(int\<newline>fd);'']) ''wasi_vfs_ops.h'' =
     Some (Text (''/* this file is generated by genvfs.sh */\<newline>#include ''
                 @ [CHR 0x22] @ ''wasi_vfs_types.h'' @ [CHR 0x22] @ ''\<newline>''
                 @ ''struct wasi_vfs_ops {\<newline>''
                 @ [CHR 0x09] @ ''int (*f)(intfd);\<newline>''
                 @ ''};\<newline>''))
   \<and> snd (main [filename \<mapsto> Text ''f( int  a ,int b );'']) ''wasi_vfs.h'' =
     Some (Text (''/* this file is generated by genvfs.sh */\<newline>#include ''
                 @ [CHR 0x22] @ ''wasi_vfs_types.h'' @ [CHR 0x22] @ ''\<newline>''
                 @ ''int wasi_vfs_f(int  a, int b);\<newline>''))"
  by code_simp

subsection \<open>Two runs\<close>

lemma write_all_adds:
  "write_all lines fs =
     (fst (write_all lines Map.empty), fs ++ snd (write_all lines Map.empty))"
  by (simp add: write_all_def split: prod.splits option.splits)

lemma write_all_keeps_input: "snd (write_all lines Map.empty) filename = None"
  by (simp add: write_all_def filename_def split: prod.splits option.splits)

lemma map_add_twice: "(m ++ w) ++ w = m ++ (w :: 'a \<rightharpoonup> 'b)"
  by (rule ext) (simp add: map_add_def split: option.split)

lemma read_text_add:
  "w name = None \<Longrightarrow> read_text (fs ++ w) name = read_text fs name"
  by (simp add: read_text_def map_add_def)

lemma main_idempotent: "main (snd (main fs)) = main fs"
proof (cases "read_text fs filename")
  case (Inl e)
  then show ?thesis by (simp add: main_def)
next
  case (Inr content)
  let ?w = "snd (write_all (lines_of content) Map.empty)"
  have m: "main fs = (fst (write_all (lines_of content) Map.empty), fs ++ ?w)"
    using Inr write_all_adds [of "lines_of content" fs] by (simp add: main_def)
  have "read_text (fs ++ ?w) filename = Inr content"
    using Inr read_text_add [of "snd (write_all (lines_of content) Map.empty)" filename fs]
      write_all_keeps_input [of "lines_of content"] by simp
  then have "main (fs ++ ?w) = (fst (write_all (lines_of content) Map.empty), (fs ++ ?w) ++ ?w)"
    using write_all_adds [of "lines_of content" "fs ++ ?w"] by (simp add: main_def)
  then show ?thesis using m by (simp add: map_add_twice)
qed

text \<open>
  C8. The generator is deterministic. A second run, started on the files the first run
  left, ends with the same outcome and leaves the same files. The outcome of a run and
  the files it writes are a function of the text read from the definition file alone:
  the run leaves the files it found, overwritten by what \<open>write_all\<close> writes for that
  text. And what \<open>process\<close> returns depends on the pieces of the content only
  through the statements in them, besides the mode, the prefix and the qualifier.
\<close>

theorem generator_deterministic:
  "main (snd (main fs)) = main fs
   \<and> (read_text fs filename = Inr content \<longrightarrow>
        main fs = (fst (write_all (lines_of content) Map.empty),
                   fs ++ snd (write_all (lines_of content) Map.empty)))
   \<and> (statements lines = statements lines' \<longrightarrow>
        process lines mode prefix qual = process lines' mode prefix qual)"
proof (intro conjI impI)
  show "main (snd (main fs)) = main fs" by (rule main_idempotent)
  show "main fs = (fst (write_all (lines_of content) Map.empty),
                   fs ++ snd (write_all (lines_of content) Map.empty))"
    if "read_text fs filename = Inr content"
    using that write_all_adds [of "lines_of content" fs] by (simp add: main_def)
  show "process lines mode prefix qual = process lines' mode prefix qual"
    if "statements lines = statements lines'"
    using that process_loop_statements [of mode prefix lines]
      process_loop_statements [of mode prefix lines']
    by (simp add: process_def)
qed

lemma run_two_ops: "fst (write_all (lines_of two_ops) Map.empty) = None"
  by code_simp

lemma read_two_ops: "read_text [filename \<mapsto> Text two_ops] filename = Inr two_ops"
  by code_simp

lemma statements_padded:
  "statements [''  close(struct path_info *fdinfo)'', '' ''] =
     [''close(struct path_info *fdinfo)'']"
  "statements [''close(struct path_info *fdinfo) ''] = [''close(struct path_info *fdinfo)'']"
  by code_simp+

theorem generator_deterministic_witness:
  "read_text [filename \<mapsto> Text two_ops] filename = Inr two_ops
   \<and> main (snd (main [filename \<mapsto> Text two_ops])) = main [filename \<mapsto> Text two_ops]
   \<and> main [filename \<mapsto> Text two_ops] =
       (None, [filename \<mapsto> Text two_ops] ++ snd (write_all (lines_of two_ops) Map.empty))
   \<and> statements [''  close(struct path_info *fdinfo)'', '' ''] =
       statements [''close(struct path_info *fdinfo) '']
   \<and> process [''  close(struct path_info *fdinfo)'', '' ''] VfsDefine ''wasi_vfs_'' ''static const'' =
       process [''close(struct path_info *fdinfo) ''] VfsDefine ''wasi_vfs_'' ''static const''"
proof -
  have st: "statements [''  close(struct path_info *fdinfo)'', '' ''] =
            statements [''close(struct path_info *fdinfo) '']"
    by (simp only: statements_padded)
  from generator_deterministic
         [of "[filename \<mapsto> Text two_ops]" two_ops
             "[''  close(struct path_info *fdinfo)'', '' '']"
             "[''close(struct path_info *fdinfo) '']" VfsDefine "''wasi_vfs_''" "''static const''"]
       read_two_ops st
  show ?thesis unfolding run_two_ops by blast
qed

end
